theory Spec2Isabelle
  imports Main "HOL-Library.Monad_Syntax"
begin

section \<open>JavaScript strings\<close>

text \<open>
  A JavaScript string is a sequence of UTF-16 code units. It is modelled as a
  \<^typ>\<open>string\<close> whose characters stand for the code units 0 to 255 (Latin-1);
  the classes below are the ECMAScript ones cut down to that range.
  An absent value (\<^verbatim>\<open>null\<close>, \<^verbatim>\<open>undefined\<close>) is \<^const>\<open>None\<close>.
\<close>

definition upperChars :: string where
  "upperChars = ''ABCDEFGHIJKLMNOPQRSTUVWXYZ'' @
     [CHR 0xC0, CHR 0xC1, CHR 0xC2, CHR 0xC3, CHR 0xC4, CHR 0xC5, CHR 0xC6, CHR 0xC7,
      CHR 0xC8, CHR 0xC9, CHR 0xCA, CHR 0xCB, CHR 0xCC, CHR 0xCD, CHR 0xCE, CHR 0xCF,
      CHR 0xD0, CHR 0xD1, CHR 0xD2, CHR 0xD3, CHR 0xD4, CHR 0xD5, CHR 0xD6,
      CHR 0xD8, CHR 0xD9, CHR 0xDA, CHR 0xDB, CHR 0xDC, CHR 0xDD, CHR 0xDE]"

definition lowerChars :: string where
  "lowerChars = ''abcdefghijklmnopqrstuvwxyz'' @
     [CHR 0xE0, CHR 0xE1, CHR 0xE2, CHR 0xE3, CHR 0xE4, CHR 0xE5, CHR 0xE6, CHR 0xE7,
      CHR 0xE8, CHR 0xE9, CHR 0xEA, CHR 0xEB, CHR 0xEC, CHR 0xED, CHR 0xEE, CHR 0xEF,
      CHR 0xF0, CHR 0xF1, CHR 0xF2, CHR 0xF3, CHR 0xF4, CHR 0xF5, CHR 0xF6,
      CHR 0xF8, CHR 0xF9, CHR 0xFA, CHR 0xFB, CHR 0xFC, CHR 0xFD, CHR 0xFE]"

definition lowerChar :: "char \<Rightarrow> char" where
  "lowerChar c = (case map_of (zip upperChars lowerChars) c of Some l \<Rightarrow> l | None \<Rightarrow> c)"

text \<open>\<^verbatim>\<open>s.toLowerCase()\<close>\<close>

definition toLowerCase :: "string \<Rightarrow> string" where
  "toLowerCase s = map lowerChar s"

text \<open>\<^verbatim>\<open>s.startsWith(p)\<close> and \<^verbatim>\<open>s.includes(sub)\<close> (the latter as \<open>includesStr\<close>).\<close>

definition startsWith :: "string \<Rightarrow> string \<Rightarrow> bool" where
  "startsWith s p = (take (length p) s = p)"

fun includesStr :: "string \<Rightarrow> string \<Rightarrow> bool" where
  "includesStr [] sub = (sub = [])"
| "includesStr (c # cs) sub = (startsWith (c # cs) sub \<or> includesStr cs sub)"

text \<open>\<^verbatim>\<open>s.replace(/ /g, '')\<close>: every space character U+0020 is removed, and no other.\<close>

definition replaceSpaces :: "string \<Rightarrow> string" where
  "replaceSpaces s = filter (\<lambda>c. c \<noteq> CHR '' '') s"

text \<open>\<^verbatim>\<open>s.split(sep)\<close> for a separator of one character\<close>

fun split :: "char \<Rightarrow> string \<Rightarrow> string list" where
  "split sep [] = [[]]"
| "split sep (c # cs) =
     (if c = sep then [] # split sep cs
      else (case split sep cs of [] \<Rightarrow> [[c]] | p # ps \<Rightarrow> (c # p) # ps))"

text \<open>\<^verbatim>\<open>arr[i]\<close>: reading past the end of an array gives \<^verbatim>\<open>undefined\<close>.\<close>

definition at :: "'a list \<Rightarrow> nat \<Rightarrow> 'a option" where
  "at arr i = (if i < length arr then Some (arr ! i) else None)"

text \<open>The character classes \<^verbatim>\<open>\d\<close>, \<^verbatim>\<open>[1-9]\<close>, \<^verbatim>\<open>\s\<close>, \<^verbatim>\<open>.\<close> and \<^verbatim>\<open>\w\<close>.\<close>

definition isDigit :: "char \<Rightarrow> bool" where
  "isDigit c = (c \<in> set ''0123456789'')"

definition isDigit19 :: "char \<Rightarrow> bool" where
  "isDigit19 c = (c \<in> set ''123456789'')"

definition isSpace :: "char \<Rightarrow> bool" where
  "isSpace c = (c \<in> set [CHR 0x09, CHR 0x0A, CHR 0x0B, CHR 0x0C, CHR 0x0D, CHR 0x20, CHR 0xA0])"

definition isDot :: "char \<Rightarrow> bool" where
  "isDot c = (c \<notin> set [CHR 0x0A, CHR 0x0D])"

definition isWordChar :: "char \<Rightarrow> bool" where
  "isWordChar c =
     (c \<in> set ''abcdefghijklmnopqrstuvwxyzABCDEFGHIJKLMNOPQRSTUVWXYZ0123456789_'')"

section \<open>Regular expressions\<close>

text \<open>
  The regular expressions of the source are run by a backtracking matcher in the style
  of the ECMAScript semantics. A position is the text before it and the text after it.
  A pattern maps a position to the list of all ways it can match there, each with the
  value it yields and the position after it, in the order backtracking tries them: the
  match the engine reports is the head of the list.
\<close>

type_synonym pos = "string \<times> string"
type_synonym 'a rx = "pos \<Rightarrow> ('a \<times> pos) list"

text \<open>One character of a class.\<close>

definition rxChar :: "(char \<Rightarrow> bool) \<Rightarrow> string rx" where
  "rxChar P p =
     (case snd p of [] \<Rightarrow> [] | c # r \<Rightarrow> if P c then [([c], (fst p @ [c], r))] else [])"

text \<open>
  A literal word under the flag \<^verbatim>\<open>i\<close>. The words of the source are ASCII letters
  and digits, for which two code units are equal up to case exactly when their
  lower-case forms are equal.
\<close>

definition rxLit :: "string \<Rightarrow> string rx" where
  "rxLit w p =
     (let n = length w; r = snd p in
      if n \<le> length r \<and> toLowerCase (take n r) = toLowerCase w
      then [(take n r, (fst p @ take n r, drop n r))] else [])"

text \<open>Sequence, alternation (left first), greedy \<^verbatim>\<open>?\<close> and greedy \<^verbatim>\<open>{0,n}\<close>.\<close>

definition rxSeq :: "string rx \<Rightarrow> string rx \<Rightarrow> string rx" where
  "rxSeq a b p = do { (x, p1) \<leftarrow> a p; (y, p2) \<leftarrow> b p1; [(x @ y, p2)] }"

definition rxAlt :: "'a rx \<Rightarrow> 'a rx \<Rightarrow> 'a rx" where
  "rxAlt a b p = a p @ b p"

definition rxAlts :: "'a rx list \<Rightarrow> 'a rx" where
  "rxAlts as p = concat (map (\<lambda>a. a p) as)"

definition rxOpt :: "string rx \<Rightarrow> string rx" where
  "rxOpt a p = a p @ [([], p)]"

fun rxUpTo :: "nat \<Rightarrow> string rx \<Rightarrow> string rx" where
  "rxUpTo 0 a = (\<lambda>p. [([], p)])"
| "rxUpTo (Suc n) a = rxOpt (rxSeq a (rxUpTo n a))"

text \<open>
  Greedy \<^verbatim>\<open>*\<close>: one more iteration is tried before stopping, and an iteration that
  consumes nothing is rejected. The value is the list of the iterations' values.
\<close>

function rxStar :: "'a rx \<Rightarrow> ('a list) rx" where
  "rxStar a p =
     concat (map (\<lambda>(x, p1). if length (snd p1) < length (snd p)
                             then map (\<lambda>(xs, p2). (x # xs, p2)) (rxStar a p1) else [])
               (a p))
     @ [([], p)]"
  by pat_completeness auto
termination
  by (relation "measure (\<lambda>(a, p). length (snd p))") auto

declare rxStar.simps [simp del]

text \<open>The assertion \<^verbatim>\<open>\b\<close>.\<close>

definition wordBoundary :: "pos \<Rightarrow> bool" where
  "wordBoundary p =
     ((fst p \<noteq> [] \<and> isWordChar (last (fst p))) \<noteq> (snd p \<noteq> [] \<and> isWordChar (hd (snd p))))"

text \<open>
  A match array: element 0 is the matched text, element \<open>i\<close> the capture group \<open>i\<close>,
  \<^const>\<open>None\<close> when the group took no part in the match.
\<close>

type_synonym regexMatch = "string option list"

text \<open>
  \<^verbatim>\<open>s.match(re)\<close> for a pattern without the flag \<^verbatim>\<open>g\<close>: the first match at the
  leftmost position that has one, or \<^verbatim>\<open>null\<close>.
\<close>

fun matchFrom :: "regexMatch rx \<Rightarrow> string \<Rightarrow> string \<Rightarrow> regexMatch option" where
  "matchFrom re l [] = (case re (l, []) of [] \<Rightarrow> None | (m, p) # _ \<Rightarrow> Some m)"
| "matchFrom re l (c # cs) =
     (case re (l, c # cs) of [] \<Rightarrow> matchFrom re (l @ [c]) cs | (m, p) # _ \<Rightarrow> Some m)"

definition match :: "regexMatch rx \<Rightarrow> string \<Rightarrow> regexMatch option" where
  "match re s = matchFrom re [] s"

text \<open>
  \<^verbatim>\<open>[...s.matchAll(re)]\<close> for a pattern with the flag \<^verbatim>\<open>g\<close>: the matches from left
  to right, each search starting where the previous match ended, one code unit further
  after an empty match.
\<close>

function matchAllFrom :: "regexMatch rx \<Rightarrow> string \<Rightarrow> string \<Rightarrow> regexMatch list" where
  "matchAllFrom re l r =
     (case re (l, r) of
        [] \<Rightarrow> (case r of [] \<Rightarrow> [] | c # cs \<Rightarrow> matchAllFrom re (l @ [c]) cs)
      | (m, p) # _ \<Rightarrow>
          m # (if length (snd p) < length r then matchAllFrom re (fst p) (snd p)
               else (case r of [] \<Rightarrow> [] | c # cs \<Rightarrow> matchAllFrom re (l @ [c]) cs)))"
  by pat_completeness auto
termination
  by (relation "measure (\<lambda>(re, l, r). length r)") auto

declare matchAllFrom.simps [simp del]

definition matchAll :: "regexMatch rx \<Rightarrow> string \<Rightarrow> regexMatch list" where
  "matchAll re s = matchAllFrom re [] s"

text \<open>\<^verbatim>\<open>/(QC|GP).{0,3}(\d\s?\/\s?\d)/gi\<close>\<close>

definition progressDigits :: "string rx" where
  "progressDigits =
     rxSeq (rxChar isDigit) (rxSeq (rxOpt (rxChar isSpace)) (rxSeq (rxChar (\<lambda>c. c = CHR ''/''))
       (rxSeq (rxOpt (rxChar isSpace)) (rxChar isDigit))))"

definition progressRegex :: "regexMatch rx" where
  "progressRegex p = do {
     (g1, p1) \<leftarrow> rxAlt (rxLit ''QC'') (rxLit ''GP'') p;
     (d, p2) \<leftarrow> rxUpTo 3 (rxChar isDot) p1;
     (g2, p3) \<leftarrow> progressDigits p2;
     [([Some (g1 @ d @ g2), Some g1, Some g2], p3)] }"

text \<open>
  \<^verbatim>\<open>/\b((Gen|G|Generation)\s*([1-9])|(SV|SWSH|SS|USUM|USM|SM|ORAS|XY|B2W2|BW2|BW|HGSS|DPP|DP|RSE|RS|ADV|GSC|GS|RBY|RB))*\b/i\<close>.
  One iteration of the starred group yields the text of group 1 and the groups 2, 3
  and 4; the captures of a starred group are those of its last iteration.
\<close>

definition rxWordB :: "string rx" where
  "rxWordB p = (if wordBoundary p then [([], p)] else [])"

definition genAbbreviations :: "string list" where
  "genAbbreviations =
     [''SV'', ''SWSH'', ''SS'', ''USUM'', ''USM'', ''SM'', ''ORAS'', ''XY'', ''B2W2'', ''BW2'',
      ''BW'', ''HGSS'', ''DPP'', ''DP'', ''RSE'', ''RS'', ''ADV'', ''GSC'', ''GS'', ''RBY'', ''RB'']"

definition genNumbered :: "(string \<times> string option \<times> string option \<times> string option) rx" where
  "genNumbered p = do {
     (w, p1) \<leftarrow> rxAlts (map rxLit [''Gen'', ''G'', ''Generation'']) p;
     (sp, p2) \<leftarrow> rxStar (rxChar isSpace) p1;
     (d, p3) \<leftarrow> rxChar isDigit19 p2;
     [((w @ concat sp @ d, Some w, Some d, None), p3)] }"

definition genAbbreviated :: "(string \<times> string option \<times> string option \<times> string option) rx" where
  "genAbbreviated p = do {
     (w, p1) \<leftarrow> rxAlts (map rxLit genAbbreviations) p;
     [((w, None, None, Some w), p1)] }"

definition genIteration :: "(string \<times> string option \<times> string option \<times> string option) rx" where
  "genIteration = rxAlt genNumbered genAbbreviated"

definition genRegex :: "regexMatch rx" where
  "genRegex p = do {
     (b0, p0) \<leftarrow> rxWordB p;
     (its, p1) \<leftarrow> rxStar genIteration p0;
     (b1, p2) \<leftarrow> rxWordB p1;
     [(Some (concat (map fst its))
         # (case rev its of [] \<Rightarrow> [None, None, None, None]
            | (g1, g2, g3, g4) # _ \<Rightarrow> [Some g1, g2, g3, g4]), p2)] }"

text \<open>\<^verbatim>\<open>/(?<=Gen )\d/\<close>\<close>

definition genPrefixRegex :: "regexMatch rx" where
  "genPrefixRegex p =
     (if 4 \<le> length (fst p) \<and> drop (length (fst p) - 4) (fst p) = ''Gen ''
      then map (\<lambda>(d, p1). ([Some d], p1)) (rxChar isDigit p) else [])"

text \<open>\<^verbatim>\<open>m[i]\<close> on a match array, and \<^verbatim>\<open>a || b\<close> on two groups.\<close>

definition grp :: "regexMatch \<Rightarrow> nat \<Rightarrow> string option" where
  "grp m i = (case at m i of None \<Rightarrow> None | Some v \<Rightarrow> v)"

definition orElse :: "string option \<Rightarrow> string option \<Rightarrow> string option" where
  "orElse a b = (case a of None \<Rightarrow> b | Some x \<Rightarrow> if x = [] then b else Some x)"

section \<open>Data\<close>

text \<open>
  The rows of the forum query (\<^verbatim>\<open>IXFStatusQuery\<close>), the parsed threads
  (\<^verbatim>\<open>IXFParsedThreadData\<close>), the rows of the cache table \<^verbatim>\<open>chatot.cc_status\<close> and
  of the subscription table \<^verbatim>\<open>chatot.ccprefs\<close> (the fields the code reads, with a
  prefix where a field name is already taken), and both together as loaded
  (\<^verbatim>\<open>ICCData\<close>).
  An element \<^const>\<open>None\<close> of \<open>gen\<close> is an \<^verbatim>\<open>undefined\<close> stored by a failed lookup
  in \<^verbatim>\<open>gens\<close>.
\<close>

record IXFStatusQuery =
  thread_id :: int
  node_id :: int
  title :: string
  phrase_text :: "string option"

record IXFParsedThreadData = IXFStatusQuery +
  gen :: "string option list"
  tier :: "string list"
  stage :: string
  progress :: string

record ICCStatus =
  cc_thread_id :: int
  cc_stage :: string
  cc_progress :: string

record IAlertChan =
  channelid :: string
  chan_tier :: string
  chan_gen :: string
  role :: "string option"

record ICCData =
  threads :: "ICCStatus list"
  alertchans :: "IAlertChan list"

text \<open>
  The constants imported from \<^verbatim>\<open>constants.js\<close>, as parameters: the prefix
  vocabularies, the table \<^verbatim>\<open>gens\<close> of generation designators (here \<open>gensOf\<close>) and
  the table \<^verbatim>\<open>ccSubObj\<close> of the monitored forum sections, keyed by the section id.
\<close>

record ccSub =
  gens :: "string list"
  tiers :: "string list"

record constants =
  OMPrefix :: "string list"
  pastGenPrefix :: "string list"
  rbyOtherPrefix :: "string list"
  gensOf :: "string \<rightharpoonup> string"
  ccSubObj :: "int \<rightharpoonup> ccSub"

datatype error = TypeError

text \<open>
  What the loop body does with one thread: \<^verbatim>\<open>continue\<close> (the thread is skipped),
  an exception, or a value.
\<close>

datatype 'a outcome = Skipped | Failed error | Parsed 'a

section \<open>The classifier \<^verbatim>\<open>parseCCStage\<close>\<close>

text \<open>
  Every \<^verbatim>\<open>await\<close> is taken to resolve: a rejected promise of the gateway or of the
  database ends the cycle with an exception and is not modelled. The diagnostic posts
  to the developer channel change no value of the computation and are left out.
\<close>

text \<open>\<^verbatim>\<open>thread.phrase_text && list.includes(thread.phrase_text)\<close>\<close>

definition listed :: "string list \<Rightarrow> string option \<Rightarrow> bool" where
  "listed l pt = (case pt of None \<Rightarrow> False | Some t \<Rightarrow> t \<noteq> [] \<and> t \<in> set l)"

text \<open>The chain on the prefix text: the stage, the generations and the tiers it sets.\<close>

definition parsePrefix ::
  "constants \<Rightarrow> string option \<Rightarrow> (string \<times> string option list \<times> string list) outcome" where
  "parsePrefix k pt =
     (if pt = Some ''WIP'' then Parsed (''WIP'', [], [])
      else if pt = Some ''Quality Control'' then Parsed (''QC'', [], [])
      else if pt = Some ''Copyediting'' then Parsed (''GP'', [], [])
      else if pt = Some ''HTML'' then Parsed (''HTML'', [], [])
      else if pt = Some ''Done'' then Parsed (''Done'', [], [])
      else if pt = Some ''Resource'' \<or> pt = Some ''Announcement'' then Skipped
      else if listed (OMPrefix k) pt then Parsed ('''', [], [case pt of Some t \<Rightarrow> t | None \<Rightarrow> ''''])
      else if listed (pastGenPrefix k) pt then
        (case match genPrefixRegex (case pt of Some t \<Rightarrow> t | None \<Rightarrow> '''') of
           None \<Rightarrow> Parsed ('''', [], [])
         | Some genRE \<Rightarrow> Parsed ('''', [grp genRE 0], []))
      else if listed (rbyOtherPrefix k) pt then
        Parsed ('''', [], [case pt of Some t \<Rightarrow> t | None \<Rightarrow> ''''])
      else Parsed ('''', [], []))"

text \<open>\<^verbatim>\<open>prog.some(val => val?.toLowerCase() === tag)\<close>\<close>

definition tagged :: "string \<Rightarrow> regexMatch \<Rightarrow> bool" where
  "tagged tag prog =
     list_ex (\<lambda>val. case val of None \<Rightarrow> False | Some v \<Rightarrow> toLowerCase v = tag) prog"

text \<open>
  \<^verbatim>\<open>m[2].replace(/ /g, '')\<close>, and the comparison of the two sides of the \<^verbatim>\<open>/\<close>:
  \<^verbatim>\<open>arr = s.split('/'); arr[0] === arr[1]\<close>.
\<close>

definition stageProgressOf :: "regexMatch \<Rightarrow> string outcome" where
  "stageProgressOf m =
     (case grp m 2 of None \<Rightarrow> Failed TypeError | Some g \<Rightarrow> Parsed (replaceSpaces g))"

definition sidesEqual :: "string \<Rightarrow> bool" where
  "sidesEqual s = (let progArr = split (CHR ''/'') s in at progArr 0 = at progArr 1)"

text \<open>The block \<^verbatim>\<open>if (stage === '')\<close>: the stage and the progress read from the title.\<close>

definition determineStage :: "string \<Rightarrow> (string \<times> string) outcome" where
  "determineStage ttl =
     (let progressions = matchAll progressRegex ttl in
      if progressions = [] then Parsed (''WIP'', '''')
      else if includesStr (toLowerCase ttl) ''done'' then Parsed (''Done'', '''')
      else if 2 \<le> length progressions then
        (case filter (tagged ''gp'') progressions of
           [] \<Rightarrow> Skipped
         | gp0 # _ \<Rightarrow>
             if length gp0 < 3 then Skipped
             else (case stageProgressOf gp0 of
                 Skipped \<Rightarrow> Skipped
               | Failed e \<Rightarrow> Failed e
               | Parsed gpStageProgress \<Rightarrow>
                   (case filter (tagged ''qc'') progressions of
                      [] \<Rightarrow> Skipped
                    | qc0 # _ \<Rightarrow>
                        if length qc0 < 3 then Skipped
                        else (case stageProgressOf qc0 of
                            Skipped \<Rightarrow> Skipped
                          | Failed e \<Rightarrow> Failed e
                          | Parsed qcStageProgress \<Rightarrow>
                              if \<not> sidesEqual qcStageProgress
                              then Parsed (''QC'', qcStageProgress)
                              else if sidesEqual qcStageProgress \<and> sidesEqual gpStageProgress
                              then Parsed (''Done'', '''')
                              else Parsed (''GP'', gpStageProgress)))))
      else if list_ex (tagged ''gp'') progressions then
        (case filter (tagged ''gp'') progressions of
           [] \<Rightarrow> Failed TypeError
         | gp0 # _ \<Rightarrow>
             (case stageProgressOf gp0 of
                Skipped \<Rightarrow> Skipped
              | Failed e \<Rightarrow> Failed e
              | Parsed gpStageProgress \<Rightarrow>
                  if sidesEqual gpStageProgress then Parsed (''Done'', '''')
                  else Parsed (''GP'', gpStageProgress)))
      else if list_ex (tagged ''qc'') progressions then
        (case filter (tagged ''qc'') progressions of
           [] \<Rightarrow> Failed TypeError
         | qc0 # _ \<Rightarrow>
             (case stageProgressOf qc0 of
                Skipped \<Rightarrow> Skipped
              | Failed e \<Rightarrow> Failed e
              | Parsed qcStageProgress \<Rightarrow>
                  if sidesEqual qcStageProgress then Parsed (''GP'', ''0/?'')
                  else Parsed (''QC'', qcStageProgress)))
      else Parsed (''WIP'', ''''))"

text \<open>
  The block \<^verbatim>\<open>if (progress === '')\<close>: for the stages QC and GP the progress of the
  first match tagged with the stage, else of the first match whose group 1 is
  \<^verbatim>\<open>undefined\<close>.
\<close>

definition determineProgress :: "string \<Rightarrow> string \<Rightarrow> string outcome" where
  "determineProgress stg ttl =
     (let progressions = matchAll progressRegex ttl;
          untagged =
            (if progressions \<noteq> [] then
               (case filter (\<lambda>prog. grp prog 1 = None \<and>
                                     (case grp prog 2 of None \<Rightarrow> False | Some g \<Rightarrow> g \<noteq> []))
                        progressions of
                  [] \<Rightarrow> Parsed ''''
                | m # _ \<Rightarrow> if 3 \<le> length m then stageProgressOf m else Parsed '''')
             else Parsed '''')
      in if stg = ''GP'' \<or> stg = ''QC'' then
           (case filter (tagged (toLowerCase stg)) progressions of
              [] \<Rightarrow> untagged
            | m # _ \<Rightarrow> if 3 \<le> length m then stageProgressOf m else untagged)
         else Parsed '''')"

text \<open>
  The block \<^verbatim>\<open>if (!gen.length)\<close>: section 770 reads the generation from the title
  and skips the thread when there is none; every other section takes it from
  \<^verbatim>\<open>ccSubObj\<close>, where reading a property of a missing entry throws.
\<close>

definition determineGen ::
  "constants \<Rightarrow> IXFStatusQuery \<Rightarrow> string option list \<Rightarrow> (string option list) outcome" where
  "determineGen k t g =
     (if g \<noteq> [] then Parsed g
      else if node_id t = 770 then
        (case match genRegex (title t) of
           None \<Rightarrow> Skipped
         | Some matchArr \<Rightarrow>
             if grp matchArr 0 \<noteq> Some '''' then
               (case orElse (grp matchArr 3) (grp matchArr 4) of
                  None \<Rightarrow> Failed TypeError
                | Some genDesr \<Rightarrow> Parsed [gensOf k (toLowerCase genDesr)])
             else Skipped)
      else (case ccSubObj k (node_id t) of
              None \<Rightarrow> Failed TypeError
            | Some sub \<Rightarrow> Parsed (map Some (gens sub))))"

text \<open>The block \<^verbatim>\<open>if (!tier.length)\<close>.\<close>

definition determineTier ::
  "constants \<Rightarrow> IXFStatusQuery \<Rightarrow> string list \<Rightarrow> (string list) outcome" where
  "determineTier k t tr =
     (if tr \<noteq> [] then Parsed tr
      else (case ccSubObj k (node_id t) of
              None \<Rightarrow> Failed TypeError
            | Some sub \<Rightarrow> Parsed (tiers sub)))"

definition bindO :: "'a outcome \<Rightarrow> ('a \<Rightarrow> 'b outcome) \<Rightarrow> 'b outcome" where
  "bindO x f = (case x of Skipped \<Rightarrow> Skipped | Failed e \<Rightarrow> Failed e | Parsed v \<Rightarrow> f v)"

text \<open>
  The end of the loop body: the generations, the tiers, and the record pushed to the
  result.
\<close>

definition resolveAndPush ::
  "constants \<Rightarrow> IXFStatusQuery \<Rightarrow> string option list \<Rightarrow> string list \<Rightarrow> string \<Rightarrow> string \<Rightarrow>
   IXFParsedThreadData outcome" where
  "resolveAndPush k t gen0 tier0 stg prg =
     bindO (determineGen k t gen0) (\<lambda>gen1.
     bindO (determineTier k t tier0) (\<lambda>tier1.
     Parsed \<lparr>thread_id = thread_id t, node_id = node_id t, title = title t,
             phrase_text = phrase_text t, gen = gen1, tier = tier1,
             stage = stg, progress = prg\<rparr>))"

text \<open>The body of the loop of \<^verbatim>\<open>parseCCStage\<close> for one thread.\<close>

definition parseThread :: "constants \<Rightarrow> IXFStatusQuery \<Rightarrow> IXFParsedThreadData outcome" where
  "parseThread k t =
     bindO (parsePrefix k (phrase_text t)) (\<lambda>(stage0, gen0, tier0).
     bindO (if stage0 = '''' then determineStage (title t) else Parsed (stage0, ''''))
       (\<lambda>(stage1, progress1).
     bindO (if progress1 = '''' then determineProgress stage1 (title t) else Parsed progress1)
       (\<lambda>progress2. resolveAndPush k t gen0 tier0 stage1 progress2)))"

text \<open>The loop: a skipped thread is left out, an exception ends the whole call.\<close>

fun parseCCStage :: "constants \<Rightarrow> IXFStatusQuery list \<Rightarrow> error + IXFParsedThreadData list" where
  "parseCCStage k [] = Inr []"
| "parseCCStage k (t # ts) =
     (case parseThread k t of
        Skipped \<Rightarrow> parseCCStage k ts
      | Failed e \<Rightarrow> Inl e
      | Parsed d \<Rightarrow> (case parseCCStage k ts of Inl e \<Rightarrow> Inl e | Inr ds \<Rightarrow> Inr (d # ds)))"

section \<open>Alerts\<close>

text \<open>
  \<^verbatim>\<open>client.channels.fetch(id)\<close> resolves to a channel of some type or to nothing.
  A message is the optional role mention and the text; the text with the thread's link
  is kept as the thread id and the words between the asterisks.
\<close>

datatype ChannelType = GuildText | PublicThread | PrivateThread | OtherChannel

type_synonym client = "string \<Rightarrow> ChannelType option"

datatype alerttext = Update int string | Plain string

datatype message = Message "string option" alerttext

text \<open>\<^verbatim>\<open>if (alertChan.role) alertmsg = `<@&${alertChan.role}> `.concat(alertmsg)\<close>\<close>

definition withRole :: "string option \<Rightarrow> alerttext \<Rightarrow> message" where
  "withRole r txt =
     (case r of None \<Rightarrow> Message None txt
      | Some x \<Rightarrow> if x = [] then Message None txt else Message (Some x) txt)"

text \<open>
  The message chosen by the synchronous variant of \<^verbatim>\<open>alertCCStatus\<close>; \<^const>\<open>None\<close>
  is its \<^verbatim>\<open>return\<close>.
\<close>

definition alertmsgSync :: "IXFParsedThreadData \<Rightarrow> alerttext option" where
  "alertmsgSync newData =
     (if stage newData = ''GP'' \<and> startsWith (progress newData) ''0''
        then Some (Update (thread_id newData) ''Ready for GP'')
      else if stage newData = ''QC'' \<and> startsWith (progress newData) ''0''
        then Some (Update (thread_id newData) ''Ready for QC'')
      else if \<not> (stage newData = ''QC'' \<or> stage newData = ''Done'') then None
      else Some (Update (thread_id newData) (stage newData @ '' '' @ progress newData)))"

text \<open>The message chosen by the diagnostic variant, which alerts instead of returning.\<close>

definition alertmsgDiag :: "IXFParsedThreadData \<Rightarrow> alerttext" where
  "alertmsgDiag newData =
     (if stage newData = ''GP'' \<and> startsWith (progress newData) ''0''
        then Update (thread_id newData) ''Ready for GP''
      else if stage newData = ''QC'' \<and> startsWith (progress newData) ''0''
        then Update (thread_id newData) ''Ready for QC''
      else if \<not> (stage newData = ''QC'' \<or> stage newData = ''Done'') then Plain ''Not QC or Done''
      else Update (thread_id newData) (stage newData @ '' '' @ progress newData))"

definition sendable :: "ChannelType option \<Rightarrow> bool" where
  "sendable chan =
     (case chan of None \<Rightarrow> False
      | Some ty \<Rightarrow> ty = GuildText \<or> ty = PublicThread \<or> ty = PrivateThread)"

text \<open>
  The loop over the alert channels, with the list \<^verbatim>\<open>processedIDs\<close>; the result is
  the list of the calls \<^verbatim>\<open>chan.send(alertmsg)\<close> it makes, as channel id and message.
\<close>

fun alertLoopSync ::
  "client \<Rightarrow> IXFParsedThreadData \<Rightarrow> string list \<Rightarrow> IAlertChan list \<Rightarrow> (string \<times> message) list" where
  "alertLoopSync cl newData processedIDs [] = []"
| "alertLoopSync cl newData processedIDs (alertChan # rest) =
     (if channelid alertChan \<in> set processedIDs then alertLoopSync cl newData processedIDs rest
      else if \<not> sendable (cl (channelid alertChan)) then []
      else (case alertmsgSync newData of
              None \<Rightarrow> []
            | Some txt \<Rightarrow>
                (channelid alertChan, withRole (role alertChan) txt)
                  # alertLoopSync cl newData (processedIDs @ [channelid alertChan]) rest))"

fun alertLoopDiag ::
  "client \<Rightarrow> IXFParsedThreadData \<Rightarrow> string list \<Rightarrow> IAlertChan list \<Rightarrow> (string \<times> message) list" where
  "alertLoopDiag cl newData processedIDs [] = []"
| "alertLoopDiag cl newData processedIDs (alertChan # rest) =
     (if channelid alertChan \<in> set processedIDs then alertLoopDiag cl newData processedIDs rest
      else if \<not> sendable (cl (channelid alertChan)) then []
      else (channelid alertChan, withRole (role alertChan) (alertmsgDiag newData))
             # alertLoopDiag cl newData (processedIDs @ [channelid alertChan]) rest)"

text \<open>The channels set up for one of the thread's tiers and one of its generations.\<close>

definition alertChansFor :: "IXFParsedThreadData \<Rightarrow> ICCData \<Rightarrow> IAlertChan list" where
  "alertChansFor newData oldData =
     (let newTierLower = map toLowerCase (tier newData)
      in filter (\<lambda>chanData. chan_tier chanData \<in> set newTierLower \<and>
                            Some (chan_gen chanData) \<in> set (gen newData))
           (alertchans oldData))"

definition alertCCStatusSync ::
  "IXFParsedThreadData \<Rightarrow> ICCData \<Rightarrow> client \<Rightarrow> (string \<times> message) list" where
  "alertCCStatusSync newData oldData cl =
     (let alertChans = alertChansFor newData oldData
      in if alertChans = [] then [] else alertLoopSync cl newData [] alertChans)"

definition alertCCStatus ::
  "IXFParsedThreadData \<Rightarrow> ICCData \<Rightarrow> client \<Rightarrow> (string \<times> message) list" where
  "alertCCStatus newData oldData cl =
     (let alertChans = alertChansFor newData oldData
      in if alertChans = [] then [] else alertLoopDiag cl newData [] alertChans)"

section \<open>The reconciliation cycle \<^verbatim>\<open>checkCCUpdates\<close>\<close>

text \<open>
  The cycle is modelled by the list of its effects in the order they happen: the calls
  \<^verbatim>\<open>chan.send(alertmsg)\<close>, each with the id of the thread being alerted, the
  channel id and the message, and the calls \<^verbatim>\<open>updateCCCache(data)\<close> and
  \<^verbatim>\<open>updateCCCache(data, true)\<close> with the thread id, stage and progress of the data
  passed. The loaded data and the result of the forum query are inputs.
\<close>

datatype effect = Send int string message | UpdateCCCache ICCStatus bool

definition statusOf :: "IXFParsedThreadData \<Rightarrow> ICCStatus" where
  "statusOf d = \<lparr>cc_thread_id = thread_id d, cc_stage = stage d, cc_progress = progress d\<rparr>"

text \<open>\<^verbatim>\<open>uncacheRemovedThreads\<close>\<close>

definition uncacheRemovedThreads :: "IXFStatusQuery list \<Rightarrow> ICCData \<Rightarrow> effect list" where
  "uncacheRemovedThreads currentData cachedData =
     (let currentThreadIDs = map thread_id currentData;
          cachedRemoved = filter (\<lambda>othread. cc_thread_id othread \<notin> set currentThreadIDs)
                            (threads cachedData)
      in map (\<lambda>oldThreadData. UpdateCCCache oldThreadData True) cachedRemoved)"

text \<open>The test for a new or changed thread.\<close>

definition changed :: "IXFParsedThreadData \<Rightarrow> ICCData \<Rightarrow> bool" where
  "changed newThreadData oldData =
     (case filter (\<lambda>othread. cc_thread_id othread = thread_id newThreadData) (threads oldData) of
        [] \<Rightarrow> True
      | old0 # _ \<Rightarrow> stage newThreadData \<noteq> cc_stage old0 \<or> progress newThreadData \<noteq> cc_progress old0)"

text \<open>
  The loop over the parsed threads, for either variant of the alert function: a changed
  thread is alerted and then written to the cache, an unchanged one is passed over.
\<close>

fun updateLoop ::
  "(IXFParsedThreadData \<Rightarrow> ICCData \<Rightarrow> client \<Rightarrow> (string \<times> message) list) \<Rightarrow>
   client \<Rightarrow> ICCData \<Rightarrow> IXFParsedThreadData list \<Rightarrow> effect list" where
  "updateLoop alert cl oldData [] = []"
| "updateLoop alert cl oldData (newThreadData # rest) =
     (if changed newThreadData oldData
      then map (\<lambda>(c, m). Send (thread_id newThreadData) c m) (alert newThreadData oldData cl)
           @ UpdateCCCache (statusOf newThreadData) False # updateLoop alert cl oldData rest
      else updateLoop alert cl oldData rest)"

definition checkCCUpdates ::
  "constants \<Rightarrow> client \<Rightarrow> ICCData \<Rightarrow> IXFStatusQuery list \<Rightarrow> error + effect list" where
  "checkCCUpdates k cl oldData threadData =
     (if threadData = [] then Inr (uncacheRemovedThreads threadData oldData)
      else (case parseCCStage k threadData of
              Inl e \<Rightarrow> Inl e
            | Inr parsedThreadData \<Rightarrow>
                Inr (updateLoop alertCCStatus cl oldData parsedThreadData
                     @ uncacheRemovedThreads threadData oldData)))"

text \<open>
  Modelled from the spec: \<^verbatim>\<open>updateCCCache\<close> of \<^verbatim>\<open>ccQueries.js\<close> is not among the
  sources. The cache is keyed by the thread id; a write is an upsert, last write wins,
  and a removal deletes the row of the thread id. The data model has a row deleted when
  the stage becomes Done, the cycle has it upserted: the flag \<open>doneDeletes\<close> covers
  both readings.
\<close>

definition updateCCCache ::
  "bool \<Rightarrow> (int \<rightharpoonup> string \<times> string) \<Rightarrow> ICCStatus \<Rightarrow> bool \<Rightarrow> (int \<rightharpoonup> string \<times> string)" where
  "updateCCCache doneDeletes cache d remove =
     (if remove \<or> (doneDeletes \<and> cc_stage d = ''Done'') then cache (cc_thread_id d := None)
      else cache (cc_thread_id d \<mapsto> (cc_stage d, cc_progress d)))"

fun cacheAfter ::
  "bool \<Rightarrow> (int \<rightharpoonup> string \<times> string) \<Rightarrow> effect list \<Rightarrow> (int \<rightharpoonup> string \<times> string)" where
  "cacheAfter doneDeletes cache [] = cache"
| "cacheAfter doneDeletes cache (Send i c m # es) = cacheAfter doneDeletes cache es"
| "cacheAfter doneDeletes cache (UpdateCCCache d remove # es) =
     cacheAfter doneDeletes (updateCCCache doneDeletes cache d remove) es"

text \<open>The cache as a table: the rows loaded at the start of the cycle.\<close>

definition cacheOf :: "ICCData \<Rightarrow> (int \<rightharpoonup> string \<times> string)" where
  "cacheOf oldData = map_of (map (\<lambda>row. (cc_thread_id row, (cc_stage row, cc_progress row))) (threads oldData))"

section \<open>The earlier cycle \<^verbatim>\<open>findNewThreads\<close>\<close>

text \<open>
  \<^verbatim>\<open>/(QC|GP)?:?\s?(\d\s?\/\s?\d)/gi\<close>, which this function runs on a fixed string
  in place of the thread's title.
\<close>

definition progressRegexOld :: "regexMatch rx" where
  "progressRegexOld p = do {
     (g1, p1) \<leftarrow> rxAlt (\<lambda>q. map (\<lambda>(w, q1). (Some w, q1)) (rxAlt (rxLit ''QC'') (rxLit ''GP'') q))
                     (\<lambda>q. [(None, q)]) p;
     (c, p2) \<leftarrow> rxOpt (rxChar (\<lambda>c. c = CHR '':'')) p1;
     (s, p3) \<leftarrow> rxOpt (rxChar isSpace) p2;
     (g2, p4) \<leftarrow> progressDigits p3;
     [([Some ((case g1 of None \<Rightarrow> [] | Some w \<Rightarrow> w) @ c @ s @ g2), g1, Some g2], p4)] }"

definition progressionsOld :: "regexMatch list" where
  "progressionsOld = matchAll progressRegexOld ''SubRoost Zapdos [QC: 2/2] [GP:0/1]''"

text \<open>
  \<^verbatim>\<open>prog.some(val => val.toLowerCase() === tag)\<close>, which throws on an
  \<^verbatim>\<open>undefined\<close> group it reaches, and \<^verbatim>\<open>some\<close> and \<^verbatim>\<open>filter\<close> over the
  matches with it.
\<close>

fun someLower :: "string \<Rightarrow> regexMatch \<Rightarrow> error + bool" where
  "someLower tag [] = Inr False"
| "someLower tag (None # vs) = Inl TypeError"
| "someLower tag (Some v # vs) = (if toLowerCase v = tag then Inr True else someLower tag vs)"

fun someTagged :: "string \<Rightarrow> regexMatch list \<Rightarrow> error + bool" where
  "someTagged tag [] = Inr False"
| "someTagged tag (m # ms) =
     (case someLower tag m of
        Inl e \<Rightarrow> Inl e
      | Inr b \<Rightarrow> if b then Inr True else someTagged tag ms)"

fun filterTagged :: "string \<Rightarrow> regexMatch list \<Rightarrow> error + regexMatch list" where
  "filterTagged tag [] = Inr []"
| "filterTagged tag (m # ms) =
     (case someLower tag m of
        Inl e \<Rightarrow> Inl e
      | Inr b \<Rightarrow> (case filterTagged tag ms of
                    Inl e \<Rightarrow> Inl e
                  | Inr r \<Rightarrow> Inr (if b then m # r else r)))"

text \<open>\<^verbatim>\<open>matches[0][2]\<close>, which throws when there is no first match.\<close>

definition firstProgress :: "regexMatch list \<Rightarrow> (string option) outcome" where
  "firstProgress ms = (case ms of [] \<Rightarrow> Failed TypeError | m # _ \<Rightarrow> Parsed (grp m 2))"

text \<open>
  The variables \<open>stage\<close>, \<open>progress\<close>, \<open>gen\<close> and \<open>tier\<close> of the loop body, the
  last three \<^const>\<open>None\<close> when an \<^verbatim>\<open>undefined\<close> has been assigned to them.
  First the chain on the prefix text, whose last branch reads the stage from the title.
\<close>

definition prefixOld ::
  "IXFStatusQuery \<Rightarrow> (string \<times> string option \<times> string option \<times> string option) outcome" where
  "prefixOld t =
     (let pt = phrase_text t in
      if pt = Some ''WIP'' then Parsed (''WIP'', Some '''', Some '''', Some '''')
      else if pt = Some ''Quality Control'' then Parsed (''QC'', Some '''', Some '''', Some '''')
      else if pt = Some ''Copyediting'' then Parsed (''GP'', Some '''', Some '''', Some '''')
      else if pt = Some ''HTML'' then Parsed (''HTML'', Some '''', Some '''', Some '''')
      else if pt = Some ''Done'' then Parsed (''Done'', Some '''', Some '''', Some '''')
      else if pt = Some ''Resource'' \<or> pt = Some ''Announcement'' then Skipped
      else if listed [''NFE'', ''AAA'', ''2v2'', ''GG'', ''AG'', ''BH'', ''M&M'', ''STAB'', ''ZU'', ''PH''] pt
        then Parsed ('''', Some '''', Some '''', pt)
      else if listed [''Gen 1'', ''Gen 2'', ''Gen 3'', ''Gen 4'', ''Gen 5'', ''Gen 6'', ''Gen 7'', ''Gen 8''] pt
        then (case match genPrefixRegex (case pt of Some x \<Rightarrow> x | None \<Rightarrow> '''') of
                None \<Rightarrow> Parsed ('''', Some '''', Some '''', Some '''')
              | Some genRE \<Rightarrow> Parsed ('''', Some '''', grp genRE 0, Some ''''))
      else if listed [''NU'', ''PU'', ''Stadium OU'', ''Tradebacks OU'', ''UU'', ''Ubers''] pt
        then Parsed ('''', Some '''', Some '''', pt)
      else if includesStr (toLowerCase (title t)) ''done''
        then Parsed (''Done'', Some '''', Some '''', Some '''')
      else (case someTagged ''gp'' progressionsOld of
              Inl e \<Rightarrow> Failed e
            | Inr hasGP \<Rightarrow>
                if hasGP then
                  (case filterTagged ''gp'' progressionsOld of
                     Inl e \<Rightarrow> Failed e
                   | Inr gpStageProgress \<Rightarrow>
                       bindO (firstProgress gpStageProgress)
                         (\<lambda>prg. Parsed (''GP'', prg, Some '''', Some '''')))
                else (case someTagged ''qc'' progressionsOld of
                        Inl e \<Rightarrow> Failed e
                      | Inr hasQC \<Rightarrow>
                          if hasQC then
                            (case filterTagged ''qc'' progressionsOld of
                               Inl e \<Rightarrow> Failed e
                             | Inr qcStageProgress \<Rightarrow>
                                 bindO (firstProgress qcStageProgress)
                                   (\<lambda>prg. Parsed (''QC'', prg, Some '''', Some '''')))
                          else Parsed (''WIP'', Some '''', Some '''', Some ''''))))"

text \<open>The block \<^verbatim>\<open>if (progress === '')\<close>.\<close>

definition progressOld :: "string \<Rightarrow> string option \<Rightarrow> (string option) outcome" where
  "progressOld stg prg =
     (if prg = Some '''' then
        (if stg = ''GP'' \<or> stg = ''QC'' then
           (case filterTagged (toLowerCase stg) progressionsOld of
              Inl e \<Rightarrow> Failed e
            | Inr stageProgress \<Rightarrow>
                if stageProgress \<noteq> [] then firstProgress stageProgress
                else if progressionsOld \<noteq> [] then
                  firstProgress
                    (filter (\<lambda>prog. grp prog 1 = None \<and>
                                    (case grp prog 2 of None \<Rightarrow> False | Some g \<Rightarrow> g \<noteq> []))
                       progressionsOld)
                else Parsed prg)
         else Parsed prg)
      else Parsed prg)"

text \<open>The table \<^verbatim>\<open>gens\<close> written in the loop body, and \<^verbatim>\<open>arr[arr.length - 1]\<close>.\<close>

definition gensInline :: "string \<rightharpoonup> string" where
  "gensInline = map_of
     [(''sv'', ''9''), (''9'', ''9''), (''swsh'', ''8''), (''ss'', ''8''), (''8'', ''8''),
      (''usum'', ''7''), (''usm'', ''7''), (''sm'', ''7''), (''7'', ''7''), (''oras'', ''6''),
      (''xy'', ''6''), (''6'', ''6''), (''b2w2'', ''5''), (''bw2'', ''5''), (''bw'', ''5''),
      (''5'', ''5''), (''hgss'', ''4''), (''dpp'', ''4''), (''dp'', ''4''), (''4'', ''4''),
      (''rse'', ''3''), (''rs'', ''3''), (''adv'', ''3''), (''3'', ''3''), (''gsc'', ''2''),
      (''gs'', ''2''), (''2'', ''2''), (''rby'', ''1''), (''rb'', ''1''), (''1'', ''1'')]"

definition lastOf :: "'a list \<Rightarrow> 'a option" where
  "lastOf arr = (if arr = [] then None else Some (last arr))"

text \<open>The blocks \<^verbatim>\<open>if (gen === '')\<close> and \<^verbatim>\<open>if (tier === '')\<close>.\<close>

definition genOld :: "constants \<Rightarrow> IXFStatusQuery \<Rightarrow> string option \<Rightarrow> (string option) outcome" where
  "genOld k t g =
     (if g = Some '''' then
        (if node_id t = 770 then
           (case match genRegex (title t) of
              None \<Rightarrow> Parsed g
            | Some matchArr \<Rightarrow>
                (case orElse (grp matchArr 3) (grp matchArr 4) of
                   None \<Rightarrow> Failed TypeError
                 | Some genDesr \<Rightarrow> Parsed (gensInline (toLowerCase genDesr))))
         else (case ccSubObj k (node_id t) of
                 None \<Rightarrow> Failed TypeError
               | Some sub \<Rightarrow> Parsed (lastOf (gens sub))))
      else Parsed g)"

definition tierOld :: "constants \<Rightarrow> IXFStatusQuery \<Rightarrow> string option \<Rightarrow> (string option) outcome" where
  "tierOld k t tr =
     (if tr = Some '''' then
        (case ccSubObj k (node_id t) of
           None \<Rightarrow> Failed TypeError
         | Some sub \<Rightarrow> Parsed (lastOf (tiers sub)))
      else Parsed tr)"

text \<open>The classification of one thread: stage, progress, generation and tier.\<close>

definition classifyOld ::
  "constants \<Rightarrow> IXFStatusQuery \<Rightarrow> (string \<times> string option \<times> string option \<times> string option) outcome" where
  "classifyOld k t =
     bindO (prefixOld t) (\<lambda>(stage0, progress0, gen0, tier0).
     bindO (progressOld stage0 progress0) (\<lambda>progress1.
     bindO (genOld k t gen0) (\<lambda>gen1.
     bindO (tierOld k t tier0) (\<lambda>tier1.
     Parsed (stage0, progress1, gen1, tier1)))))"

text \<open>
  The alert of this function: the rows of \<^verbatim>\<open>chatot.ccprefs\<close> with the thread's tier
  and generation, of which the first channel alone is sent the status. A send is the
  channel id, the thread id, the stage and the progress.
\<close>

datatype sendOld = SendOld string int string "string option"

definition alertCCStatusOld ::
  "int \<Rightarrow> string \<Rightarrow> string option \<Rightarrow> string option \<Rightarrow> string option \<Rightarrow> client \<Rightarrow>
   IAlertChan list \<Rightarrow> sendOld list" where
  "alertCCStatusOld threadid stg prg g tr cl ccprefs =
     (case filter (\<lambda>row. Some (chan_tier row) = tr \<and> Some (chan_gen row) = g) ccprefs of
        [] \<Rightarrow> []
      | alertChan # _ \<Rightarrow>
          if \<not> sendable (cl (channelid alertChan)) then []
          else [SendOld (channelid alertChan) threadid stg prg])"

text \<open>
  The loop, on the table \<^verbatim>\<open>chatot.cc_status\<close> as it stands: the sends made, the
  table afterwards and how the function ended. An unchanged thread makes the function
  \<^verbatim>\<open>return\<close>.
\<close>

datatype ending = Finished | Thrown error

fun findNewThreadsLoop ::
  "constants \<Rightarrow> client \<Rightarrow> IAlertChan list \<Rightarrow> (int \<rightharpoonup> string \<times> string option) \<Rightarrow>
   IXFStatusQuery list \<Rightarrow> sendOld list \<times> (int \<rightharpoonup> string \<times> string option) \<times> ending" where
  "findNewThreadsLoop k cl ccprefs cc_status [] = ([], cc_status, Finished)"
| "findNewThreadsLoop k cl ccprefs cc_status (t # ts) =
     (case classifyOld k t of
        Skipped \<Rightarrow> findNewThreadsLoop k cl ccprefs cc_status ts
      | Failed e \<Rightarrow> ([], cc_status, Thrown e)
      | Parsed (stg, prg, g, tr) \<Rightarrow>
          if (case cc_status (thread_id t) of
                None \<Rightarrow> True
              | Some (oldStage, oldProgress) \<Rightarrow> stg \<noteq> oldStage \<or> prg \<noteq> oldProgress)
          then (let sends = alertCCStatusOld (thread_id t) stg prg g tr cl ccprefs;
                    cc_status1 = (if stg = ''Done'' then cc_status (thread_id t := None)
                                  else cc_status (thread_id t \<mapsto> (stg, prg)))
                in case findNewThreadsLoop k cl ccprefs cc_status1 ts of
                     (sends1, cc_status2, e) \<Rightarrow> (sends @ sends1, cc_status2, e))
          else ([], cc_status, Finished))"

definition findNewThreads ::
  "constants \<Rightarrow> client \<Rightarrow> IAlertChan list \<Rightarrow> (int \<rightharpoonup> string \<times> string option) \<Rightarrow>
   IXFStatusQuery list \<Rightarrow> sendOld list \<times> (int \<rightharpoonup> string \<times> string option) \<times> ending" where
  "findNewThreads k cl ccprefs cc_status threadData =
     (if threadData = [] then ([], cc_status, Finished)
      else findNewThreadsLoop k cl ccprefs cc_status threadData)"

section \<open>The constants\<close>

text \<open>
  Values for the constants: the prefix lists and the table \<^verbatim>\<open>gens\<close> as they are
  written inline in \<^verbatim>\<open>findNewThreads\<close>, and the table \<^verbatim>\<open>ccSubObj\<close> as the
  migration command declares it (\<open>gensUpTo8\<close> is its list of the generations 1 to 8,
  \<open>gensUpTo9\<close> of 1 to 9).
\<close>

definition gensUpTo8 :: "string list" where
  "gensUpTo8 = map (\<lambda>c. [c]) ''12345678''"

definition gensUpTo9 :: "string list" where
  "gensUpTo9 = map (\<lambda>c. [c]) ''123456789''"

definition ccSubObjTable :: "(int \<times> ccSub) list" where
  "ccSubObjTable =
     [(758, \<lparr>gens = [''9''], tiers = [''ou'']\<rparr>),
      (759, \<lparr>gens = [''9''], tiers = [''uber'']\<rparr>),
      (539, \<lparr>gens = gensUpTo8, tiers = [''uber'']\<rparr>),
      (772, \<lparr>gens = [''9''], tiers = [''uu'']\<rparr>),
      (576, \<lparr>gens = gensUpTo8, tiers = [''uu'']\<rparr>),
      (774, \<lparr>gens = [''9''], tiers = [''nu'']\<rparr>),
      (587, \<lparr>gens = gensUpTo8, tiers = [''nu'']\<rparr>),
      (775, \<lparr>gens = [''9''], tiers = [''pu'']\<rparr>),
      (844, \<lparr>gens = gensUpTo8, tiers = [''pu'']\<rparr>),
      (760, \<lparr>gens = [''9''], tiers = [''lc'']\<rparr>),
      (540, \<lparr>gens = gensUpTo8, tiers = [''lc'']\<rparr>),
      (761, \<lparr>gens = [''9''], tiers = [''doubles'']\<rparr>),
      (541, \<lparr>gens = gensUpTo8, tiers = [''doubles'']\<rparr>),
      (762, \<lparr>gens = [''9''], tiers = [''monotype'']\<rparr>),
      (660, \<lparr>gens = gensUpTo8, tiers = [''monotype'']\<rparr>),
      (763, \<lparr>gens = [''9''], tiers = [''nfe'', ''almost-any-ability'', ''2v2-doubles'', ''godly-gift'', ''ag'', ''bh'', ''mix-and-mega'', ''stabmons'', ''zu'', ''partners-in-crime'', ''inh'', ''ubers-uu'']\<rparr>),
      (770, \<lparr>gens = gensUpTo8, tiers = [''nfe'', ''almost-any-ability'', ''2v2-doubles'', ''godly-gift'', ''ag'', ''bh'', ''mix-and-mega'', ''stabmons'', ''zu'', ''partners-in-crime'', ''inh'', ''ubers-uu'']\<rparr>),
      (764, \<lparr>gens = [''9''], tiers = [''1v1'']\<rparr>),
      (476, \<lparr>gens = gensUpTo8, tiers = [''1v1'']\<rparr>),
      (765, \<lparr>gens = [''9''], tiers = [''national-dex'']\<rparr>),
      (828, \<lparr>gens = [''9''], tiers = [''national-dex-monotype'']\<rparr>),
      (839, \<lparr>gens = [''9''], tiers = [''national-dex-uu'']\<rparr>),
      (768, \<lparr>gens = gensUpTo9, tiers = [''cap'']\<rparr>),
      (766, \<lparr>gens = [''9''], tiers = [''bss'']\<rparr>),
      (767, \<lparr>gens = [''9''], tiers = [''vgc'']\<rparr>),
      (148, \<lparr>gens = gensUpTo8, tiers = [''ou'']\<rparr>),
      (512, \<lparr>gens = [''1''], tiers = [''nu'', ''pu'', ''stadium-ou'', ''tradebacks-ou'', ''uu'', ''uber'']\<rparr>),
      (608, \<lparr>gens = [''7''], tiers = [''lgpe-ou'']\<rparr>),
      (707, \<lparr>gens = [''8''], tiers = [''bdsp-ou'']\<rparr>),
      (871, \<lparr>gens = [''9''], tiers = [''draft'']\<rparr>)]"

definition theConstants :: constants where
  "theConstants =
     \<lparr>OMPrefix = [''NFE'', ''AAA'', ''2v2'', ''GG'', ''AG'', ''BH'', ''M&M'', ''STAB'', ''ZU'', ''PH''],
      pastGenPrefix = [''Gen 1'', ''Gen 2'', ''Gen 3'', ''Gen 4'', ''Gen 5'', ''Gen 6'', ''Gen 7'', ''Gen 8''],
      rbyOtherPrefix = [''NU'', ''PU'', ''Stadium OU'', ''Tradebacks OU'', ''UU'', ''Ubers''],
      gensOf = gensInline,
      ccSubObj = map_of ccSubObjTable\<rparr>"

section \<open>Properties of the classifier\<close>

text \<open>What a classification says of a thread: stage, progress, generations and tiers.\<close>

definition classification ::
  "IXFParsedThreadData \<Rightarrow> string \<times> string \<times> string option list \<times> string list" where
  "classification d = (stage d, progress d, gen d, tier d)"

definition thread100 :: IXFStatusQuery where
  "thread100 =
     \<lparr>thread_id = 100, node_id = 758, title = ''Zapdos [QC 1/2]'', phrase_text = None\<rparr>"

definition threadDone :: IXFStatusQuery where
  "threadDone =
     \<lparr>thread_id = 101, node_id = 758, title = ''Zapdos [QC 2/2] done'', phrase_text = None\<rparr>"

text \<open>
  The rule for the text of an alert, by the stage and progress of the thread:
  ready for QC or GP when the progress starts with 0, the stage and the progress for
  Done and for any other progress of QC, and no status text for the rest.
\<close>

definition messageRule :: "IXFParsedThreadData \<Rightarrow> alerttext option" where
  "messageRule d =
     (if (stage d = ''QC'' \<or> stage d = ''GP'') \<and> startsWith (progress d) ''0''
        then Some (Update (thread_id d) (''Ready for '' @ stage d))
      else if stage d = ''Done'' \<or> stage d = ''QC''
        then Some (Update (thread_id d) (stage d @ '' '' @ progress d))
      else None)"

text \<open>
  Data for the examples: a thread of the section 763 at the start of QC, a thread in
  GP with one check and a thread with no signal; a client that knows the text channel
  \<open>C\<close> alone; and two subscriptions of that channel, for two tiers of the section.
\<close>

definition thread763 :: IXFStatusQuery where
  "thread763 =
     \<lparr>thread_id = 100, node_id = 763, title = ''Zapdos [QC 0/2]'', phrase_text = None\<rparr>"

definition threadGP :: IXFStatusQuery where
  "threadGP =
     \<lparr>thread_id = 102, node_id = 763, title = ''Zapdos [GP 1/2]'', phrase_text = None\<rparr>"

definition threadWIP :: IXFStatusQuery where
  "threadWIP =
     \<lparr>thread_id = 103, node_id = 763, title = ''Zapdos'', phrase_text = None\<rparr>"

definition clientC :: client where
  "clientC c = (if c = ''C'' then Some GuildText else None)"

definition subscribedC :: ICCData where
  "subscribedC =
     \<lparr>threads = [\<lparr>cc_thread_id = 7, cc_stage = ''QC'', cc_progress = ''1/2''\<rparr>],
      alertchans =
        [\<lparr>channelid = ''C'', chan_tier = ''nfe'', chan_gen = ''9'', role = None\<rparr>,
         \<lparr>channelid = ''C'', chan_tier = ''ag'', chan_gen = ''9'', role = None\<rparr>]\<rparr>"

definition parsed763 :: IXFParsedThreadData where
  "parsed763 =
     \<lparr>thread_id = 100, node_id = 763, title = ''Zapdos [QC 0/2]'', phrase_text = None,
      gen = [Some ''9''],
      tier = [''nfe'', ''almost-any-ability'', ''2v2-doubles'', ''godly-gift'', ''ag'', ''bh'',
              ''mix-and-mega'', ''stabmons'', ''zu'', ''partners-in-crime'', ''inh'', ''ubers-uu''],
      stage = ''QC'', progress = ''0/2''\<rparr>"

definition parsedGP :: IXFParsedThreadData where
  "parsedGP =
     \<lparr>thread_id = 102, node_id = 763, title = ''Zapdos [GP 1/2]'', phrase_text = None,
      gen = [Some ''9''],
      tier = [''nfe'', ''almost-any-ability'', ''2v2-doubles'', ''godly-gift'', ''ag'', ''bh'',
              ''mix-and-mega'', ''stabmons'', ''zu'', ''partners-in-crime'', ''inh'', ''ubers-uu''],
      stage = ''GP'', progress = ''1/2''\<rparr>"

text \<open>
  The subscriptions of the examples behind a row whose channel the client cannot
  fetch.
\<close>

definition subscribedXC :: ICCData where
  "subscribedXC =
     subscribedC
       \<lparr>alertchans :=
          \<lparr>channelid = ''X'', chan_tier = ''nfe'', chan_gen = ''9'', role = None\<rparr>
            # alertchans subscribedC\<rparr>"

text \<open>
  The effects of a cycle on the three threads with the subscriptions and the cache of
  the examples, where the thread 7 is cached and no longer in the forum.
\<close>

definition effects763 :: "effect list" where
  "effects763 =
     [Send 100 ''C'' (Message None (Update 100 ''Ready for QC'')),
      UpdateCCCache \<lparr>cc_thread_id = 100, cc_stage = ''QC'', cc_progress = ''0/2''\<rparr> False,
      Send 102 ''C'' (Message None (Plain ''Not QC or Done'')),
      UpdateCCCache \<lparr>cc_thread_id = 102, cc_stage = ''GP'', cc_progress = ''1/2''\<rparr> False,
      Send 103 ''C'' (Message None (Plain ''Not QC or Done'')),
      UpdateCCCache \<lparr>cc_thread_id = 103, cc_stage = ''WIP'', cc_progress = ''''\<rparr> False,
      UpdateCCCache \<lparr>cc_thread_id = 7, cc_stage = ''QC'', cc_progress = ''1/2''\<rparr> True]"

text \<open>
  A numeric group whose white space, if any, is the space character U+0020.
\<close>

definition plainSpaces :: "string \<Rightarrow> bool" where
  "plainSpaces g = list_all (\<lambda>c. isSpace c \<longrightarrow> c = CHR '' '') g"

text \<open>The sends among the effects of a cycle, each as the thread alerted and the channel.\<close>

fun sentTo :: "effect list \<Rightarrow> (int \<times> string) list" where
  "sentTo [] = []"
| "sentTo (Send i c m # es) = (i, c) # sentTo es"
| "sentTo (UpdateCCCache d remove # es) = sentTo es"

lemma map_outcome_bindO: "map_outcome f (bindO x g) = bindO x (\<lambda>v. map_outcome f (g v))"
  by (cases x) (simp_all add: bindO_def)

text \<open>
  C9. Classifying two threads with the same title, the same prefix text and the same
  forum section gives the same result: both are skipped, both fail, or both are
  classified with the same stage, progress, generations and tiers. In particular a
  thread classified again on a later poll, unchanged, is classified as before.
\<close>

theorem classify_idempotent:
  assumes "title t1 = title t2" and "phrase_text t1 = phrase_text t2"
    and "node_id t1 = node_id t2"
  shows "map_outcome classification (parseThread k t1)
         = map_outcome classification (parseThread k t2)"
  unfolding parseThread_def resolveAndPush_def determineGen_def determineTier_def assms
  by (simp add: map_outcome_bindO classification_def case_prod_unfold)

theorem classify_idempotent_witness:
  "map_outcome classification (parseThread theConstants thread100)
   = map_outcome classification (parseThread theConstants (thread100\<lparr>thread_id := 200\<rparr>))
   \<and> map_outcome classification (parseThread theConstants thread100)
     = Parsed (''QC'', ''1/2'', [Some ''9''], [''ou''])"
proof (rule conjI)
  show "map_outcome classification (parseThread theConstants thread100)
   = map_outcome classification (parseThread theConstants (thread100\<lparr>thread_id := 200\<rparr>))"
    by (rule classify_idempotent) simp_all
  show "map_outcome classification (parseThread theConstants thread100)
     = Parsed (''QC'', ''1/2'', [Some ''9''], [''ou''])"
    by code_simp
qed

subsection \<open>No group of a match is left unset, and no step throws\<close>

text \<open>
  Every match that \<open>matchAll\<close> and \<open>match\<close> report is a match of the pattern at
  some position. A match of the progress pattern has its two groups set, and a
  non-empty match of the generation pattern has group 3 or group 4 set; so, for a thread
  of a section that is a key of \<^verbatim>\<open>ccSubObj\<close>, no step of \<^verbatim>\<open>parseCCStage\<close> throws,
  and the cycle completes.
\<close>

lemma matchAllFrom_elems:
  "m \<in> set (matchAllFrom re l r) \<Longrightarrow> \<exists>p q. (m, q) \<in> set (re p)"
proof (induction re l r rule: matchAllFrom.induct)
  case (1 re l r)
  show ?case
  proof (cases "re (l, r)")
    case Nil
    show ?thesis
    proof (cases r)
      case Nil': Nil
      with Nil "1.prems" show ?thesis by (subst (asm) matchAllFrom.simps) simp
    next
      case (Cons c cs)
      with Nil "1.prems" have "m \<in> set (matchAllFrom re (l @ [c]) cs)"
        by (subst (asm) matchAllFrom.simps) simp
      with "1.IH"(1) [OF Nil Cons] show ?thesis by simp
    qed
  next
    case (Cons x xs)
    obtain m0 p0 where x: "x = (m0, p0)" by (cases x)
    show ?thesis
    proof (cases "m = m0")
      case True
      with Cons x have "(m, p0) \<in> set (re (l, r))" by simp
      then show ?thesis by blast
    next
      case False
      show ?thesis
      proof (cases "length (snd p0) < length r")
        case t: True
        with False Cons x "1.prems" have "m \<in> set (matchAllFrom re (fst p0) (snd p0))"
          by (subst (asm) matchAllFrom.simps) simp
        with "1.IH"(2) [OF Cons x [symmetric] t] show ?thesis by simp
      next
        case f: False
        show ?thesis
        proof (cases r)
          case Nil
          with f False Cons x "1.prems" show ?thesis by (subst (asm) matchAllFrom.simps) simp
        next
          case c: (Cons c cs)
          with f False Cons x "1.prems" have "m \<in> set (matchAllFrom re (l @ [c]) cs)"
            by (subst (asm) matchAllFrom.simps) simp
          with "1.IH"(3) [OF Cons x [symmetric] f c] show ?thesis by simp
        qed
      qed
    qed
  qed
qed

lemma progressRegex_shape:
  "(m, q) \<in> set (progressRegex p) \<Longrightarrow> \<exists>a b c. m = [Some a, Some b, Some c]"
  by (auto simp: progressRegex_def List.bind_def)

lemma matchAll_progress_shape:
  "m \<in> set (matchAll progressRegex s) \<Longrightarrow> \<exists>a b c. m = [Some a, Some b, Some c]"
  unfolding matchAll_def by (blast dest: matchAllFrom_elems progressRegex_shape)

lemma stageProgressOf_shape:
  "m \<in> set (matchAll progressRegex s) \<Longrightarrow> \<exists>g. stageProgressOf m = Parsed g \<and> 3 \<le> length m"
  by (auto dest!: matchAll_progress_shape simp: stageProgressOf_def grp_def at_def)

lemma filter_head_in: "filter P xs = y # ys \<Longrightarrow> y \<in> set xs \<and> P y"
  by (metis filter_eq_ConsD in_set_conv_decomp)

lemma determineStage_total: "determineStage ttl \<noteq> Failed e"
proof -
  let ?ps = "matchAll progressRegex ttl"
  have sp: "\<exists>g. stageProgressOf y = Parsed g" if "filter P ?ps = y # ys" for P y ys
    using filter_head_in [OF that] stageProgressOf_shape by blast
  have ne: "filter P ?ps \<noteq> []" if "list_ex P ?ps" for P
    using that by (simp add: filter_empty_conv list_ex_iff)
  show ?thesis
    unfolding determineStage_def Let_def
    by (auto split: list.splits outcome.splits dest: sp ne)
qed

lemma determineProgress_total: "determineProgress stg ttl \<noteq> Failed e"
proof -
  let ?ps = "matchAll progressRegex ttl"
  have sp: "\<exists>g. stageProgressOf y = Parsed g" if "filter P ?ps = y # ys" for P y ys
    using filter_head_in [OF that] stageProgressOf_shape by blast
  show ?thesis
    unfolding determineProgress_def Let_def
    by (auto split: list.splits dest: sp)
qed

lemma matchFrom_elems:
  "matchFrom re l r = Some m \<Longrightarrow> \<exists>p q. (m, q) \<in> set (re p)"
proof (induction r arbitrary: l)
  case Nil
  then show ?case by (auto split: list.splits) (metis list.set_intros(1))
next
  case (Cons c cs)
  show ?case
  proof (cases "re (l, c # cs)")
    case Nil
    with Cons.prems have "matchFrom re (l @ [c]) cs = Some m" by simp
    from Cons.IH [OF this] show ?thesis .
  next
    case (Cons x xs)
    with Cons.prems have "(m, snd x) \<in> set (re (l, c # cs))"
      by (cases x) auto
    then show ?thesis by blast
  qed
qed

lemma rxStar_elems:
  "(xs, q) \<in> set (rxStar a p) \<Longrightarrow> x \<in> set xs \<Longrightarrow> \<exists>p' q'. (x, q') \<in> set (a p')"
proof (induction a p arbitrary: xs q rule: rxStar.induct)
  case (1 a p)
  from "1.prems"(1) have
    "(xs, q) = ([], p) \<or>
     (\<exists>y p1 ys. (y, p1) \<in> set (a p) \<and> length (snd p1) < length (snd p)
          \<and> (ys, q) \<in> set (rxStar a p1) \<and> xs = y # ys)"
    by (subst (asm) rxStar.simps) (auto split: if_splits)
  then show ?case
  proof
    assume "(xs, q) = ([], p)"
    with "1.prems"(2) show ?thesis by simp
  next
    assume "\<exists>y p1 ys. (y, p1) \<in> set (a p) \<and> length (snd p1) < length (snd p)
          \<and> (ys, q) \<in> set (rxStar a p1) \<and> xs = y # ys"
    then obtain y p1 ys where y: "(y, p1) \<in> set (a p)" and l: "length (snd p1) < length (snd p)"
      and ys: "(ys, q) \<in> set (rxStar a p1)" and xs: "xs = y # ys" by blast
    show ?thesis
    proof (cases "x = y")
      case True
      with y show ?thesis by blast
    next
      case False
      with xs "1.prems"(2) have "x \<in> set ys" by simp
      from "1.IH" [OF y refl l ys this] show ?thesis .
    qed
  qed
qed

lemma rxChar_nonempty: "(d, q) \<in> set (rxChar P p) \<Longrightarrow> d \<noteq> []"
  by (auto simp: rxChar_def split: list.splits if_splits)

lemma rxLit_nonempty: "w \<noteq> [] \<Longrightarrow> (x, q) \<in> set (rxLit w p) \<Longrightarrow> x \<noteq> []"
  by (auto simp: rxLit_def Let_def split: if_splits)

lemma rxAlts_lit_nonempty:
  "\<forall>w \<in> set ws. w \<noteq> [] \<Longrightarrow> (x, q) \<in> set (rxAlts (map rxLit ws) p) \<Longrightarrow> x \<noteq> []"
  by (auto simp: rxAlts_def dest: rxLit_nonempty)

lemma genIteration_designator:
  assumes "(x, q) \<in> set (genIteration p)"
  shows "orElse (fst (snd (snd x))) (snd (snd (snd x))) \<noteq> None"
proof -
  from assms consider "(x, q) \<in> set (genNumbered p)" | "(x, q) \<in> set (genAbbreviated p)"
    by (auto simp: genIteration_def rxAlt_def)
  then show ?thesis
  proof cases
    case 1
    then obtain w sp d p2 where "x = (w @ concat sp @ d, Some w, Some d, None)"
      and "(d, q) \<in> set (rxChar isDigit19 p2)"
      by (auto simp: genNumbered_def List.bind_def)
    then show ?thesis by (auto simp: orElse_def dest: rxChar_nonempty)
  next
    case 2
    then obtain w where "x = (w, None, None, Some w)"
      and "(w, q) \<in> set (rxAlts (map rxLit genAbbreviations) p)"
      by (auto simp: genAbbreviated_def List.bind_def)
    moreover have "\<forall>w \<in> set genAbbreviations. w \<noteq> []"
      by (simp add: genAbbreviations_def)
    ultimately show ?thesis by (auto simp: orElse_def dest: rxAlts_lit_nonempty)
  qed
qed

lemma genRegex_designator:
  assumes "(m, q) \<in> set (genRegex p)" and "grp m 0 \<noteq> Some ''''"
  shows "orElse (grp m 3) (grp m 4) \<noteq> None"
proof -
  from assms(1) obtain its p0 p1 where its: "(its, p1) \<in> set (rxStar genIteration p0)"
    and m: "m = Some (concat (map fst its))
              # (case rev its of [] \<Rightarrow> [None, None, None, None]
                 | (g1, g2, g3, g4) # _ \<Rightarrow> [Some g1, g2, g3, g4])"
    by (auto simp: genRegex_def List.bind_def)
  show ?thesis
  proof (cases "rev its")
    case Nil
    with m assms(2) show ?thesis by (simp add: grp_def at_def)
  next
    case (Cons x xs)
    then have "x \<in> set its" by (metis list.set_intros(1) set_rev)
    from rxStar_elems [OF its this] obtain p' q' where "(x, q') \<in> set (genIteration p')" by blast
    from genIteration_designator [OF this] Cons m show ?thesis
      by (cases x) (auto simp: grp_def at_def)
  qed
qed

lemma determineGen_total:
  assumes "ccSubObj k (node_id t) \<noteq> None \<or> node_id t = 770"
  shows "determineGen k t g \<noteq> Failed e"
proof -
  have "orElse (grp m 3) (grp m 4) \<noteq> None"
    if "match genRegex (title t) = Some m" "grp m 0 \<noteq> Some ''''" for m
    using that matchFrom_elems [of genRegex "[]" "title t" m] genRegex_designator
    unfolding match_def by blast
  with assms show ?thesis
    unfolding determineGen_def by (auto split: option.splits)
qed

lemma determineTier_total:
  "ccSubObj k (node_id t) \<noteq> None \<Longrightarrow> determineTier k t tr \<noteq> Failed e"
  unfolding determineTier_def by (auto split: option.splits)

lemma parsePrefix_total: "parsePrefix k pt \<noteq> Failed e"
  unfolding parsePrefix_def by (auto split: option.splits)

lemma bindO_total:
  "x \<noteq> Failed e \<Longrightarrow> (\<And>v. f v \<noteq> Failed e) \<Longrightarrow> bindO x f \<noteq> Failed e"
  by (cases x) (auto simp: bindO_def)

lemma parseThread_total:
  assumes "ccSubObj k (node_id t) \<noteq> None"
  shows "parseThread k t \<noteq> Failed e"
proof -
  have r: "resolveAndPush k t g0 t0 stg prg \<noteq> Failed e" for g0 t0 stg prg
    unfolding resolveAndPush_def
    by (rule bindO_total [OF determineGen_total [OF disjI1 [OF assms]]],
        rule bindO_total [OF determineTier_total [OF assms]]) simp
  have p: "bindO (if progress1 = [] then determineProgress stage1 (title t) else Parsed progress1)
             (\<lambda>progress2. resolveAndPush k t g0 t0 stage1 progress2) \<noteq> Failed e"
    for g0 t0 stage1 progress1
    by (rule bindO_total) (simp_all add: determineProgress_total r)
  have s: "bindO (if stage0 = [] then determineStage (title t) else Parsed (stage0, []))
             (\<lambda>(stage1, progress1).
                bindO (if progress1 = [] then determineProgress stage1 (title t) else Parsed progress1)
                  (\<lambda>progress2. resolveAndPush k t g0 t0 stage1 progress2)) \<noteq> Failed e"
    for stage0 g0 t0
    by (rule bindO_total) (simp_all add: determineStage_total p split: prod.splits)
  show ?thesis
    unfolding parseThread_def
    by (rule bindO_total [OF parsePrefix_total]) (simp add: s split: prod.splits)
qed

lemma parseCCStage_total:
  "\<forall>t \<in> set ts. ccSubObj k (node_id t) \<noteq> None \<Longrightarrow> \<exists>ds. parseCCStage k ts = Inr ds"
proof (induction ts)
  case Nil
  then show ?case by simp
next
  case (Cons t ts)
  then obtain ds where "parseCCStage k ts = Inr ds" by auto
  moreover from Cons.prems have "parseThread k t \<noteq> Failed e" for e
    by (simp add: parseThread_total)
  ultimately show ?case by (cases "parseThread k t") auto
qed

lemma checkCCUpdates_total:
  "\<forall>t \<in> set ts. ccSubObj k (node_id t) \<noteq> None \<Longrightarrow> \<exists>es. checkCCUpdates k cl old ts = Inr es"
  using parseCCStage_total [of ts k] by (auto simp: checkCCUpdates_def)

subsection \<open>The word done and the stage WIP\<close>

lemma resolveAndPush_Parsed:
  "resolveAndPush k t g0 t0 stg prg = Parsed d \<Longrightarrow>
     stage d = stg \<and> progress d = prg \<and> thread_id d = thread_id t"
  by (auto simp: resolveAndPush_def bindO_def split: outcome.splits)

text \<open>
  C3, as the code has it. For a thread whose prefix text leaves the stage open: when
  the title has at least one QC/GP numeric match and contains \<open>done\<close> in any letter
  case, the classification goes on to the generations and tiers with stage Done and
  empty progress, however many matches there are, so every result has stage Done; when
  the title has no match, it goes on with stage WIP and empty progress, whether or not
  the title contains \<open>done\<close>.
\<close>

theorem done_needs_pattern:
  assumes "parsePrefix k (phrase_text t) = Parsed ('''', g0, t0)"
  shows "(matchAll progressRegex (title t) \<noteq> [] \<and> includesStr (toLowerCase (title t)) ''done''
            \<longrightarrow> parseThread k t = resolveAndPush k t g0 t0 ''Done'' ''''
                \<and> (\<forall>d. parseThread k t = Parsed d \<longrightarrow> stage d = ''Done'' \<and> progress d = ''''))
       \<and> (matchAll progressRegex (title t) = []
            \<longrightarrow> parseThread k t = resolveAndPush k t g0 t0 ''WIP'' ''''
                \<and> (\<forall>d. parseThread k t = Parsed d \<longrightarrow> stage d = ''WIP'' \<and> progress d = ''''))"
proof -
  have is_done: "parseThread k t = resolveAndPush k t g0 t0 ''Done'' ''''"
    if "matchAll progressRegex (title t) \<noteq> []" "includesStr (toLowerCase (title t)) ''done''"
    using assms that
    by (simp add: parseThread_def bindO_def determineStage_def determineProgress_def Let_def)
  have is_wip: "parseThread k t = resolveAndPush k t g0 t0 ''WIP'' ''''"
    if "matchAll progressRegex (title t) = []"
    using assms that
    by (simp add: parseThread_def bindO_def determineStage_def determineProgress_def Let_def)
  show ?thesis
  proof (intro conjI impI allI)
    assume a: "matchAll progressRegex (title t) \<noteq> [] \<and> includesStr (toLowerCase (title t)) ''done''"
    then show p: "parseThread k t = resolveAndPush k t g0 t0 ''Done'' ''''"
      using is_done by blast
    fix d assume "parseThread k t = Parsed d"
    with p have "resolveAndPush k t g0 t0 ''Done'' '''' = Parsed d" by simp
    from resolveAndPush_Parsed [OF this]
    show "stage d = ''Done''" and "progress d = ''''" by simp_all
  next
    assume a: "matchAll progressRegex (title t) = []"
    then show p: "parseThread k t = resolveAndPush k t g0 t0 ''WIP'' ''''"
      using is_wip by blast
    fix d assume "parseThread k t = Parsed d"
    with p have "resolveAndPush k t g0 t0 ''WIP'' '''' = Parsed d" by simp
    from resolveAndPush_Parsed [OF this]
    show "stage d = ''WIP''" and "progress d = ''''" by simp_all
  qed
qed

text \<open>An instance: a title with one match and the word done.\<close>

theorem done_needs_pattern_witness:
  "parseThread theConstants threadDone = resolveAndPush theConstants threadDone [] [] ''Done'' ''''
   \<and> map_outcome classification (parseThread theConstants threadDone)
       = Parsed (''Done'', '''', [Some ''9''], [''ou''])"
proof -
  have h1: "parsePrefix theConstants (phrase_text threadDone) = Parsed ('''', [], [])"
    by code_simp
  have h2: "matchAll progressRegex (title threadDone) \<noteq> []"
    by code_simp
  have h3: "includesStr (toLowerCase (title threadDone)) ''done''"
    by code_simp
  have "parseThread theConstants threadDone
        = resolveAndPush theConstants threadDone [] [] ''Done'' ''''"
    using done_needs_pattern [OF h1] h2 h3 by blast
  moreover have "map_outcome classification (resolveAndPush theConstants threadDone [] [] ''Done'' '''')
       = Parsed (''Done'', '''', [Some ''9''], [''ou''])"
    by code_simp
  ultimately show ?thesis by simp
qed

text \<open>
  The title \<open>Zapdos done\<close> contains the word done and no numeric match: the test
  for no match comes first, and the stage is WIP, not Done.
\<close>

theorem done_without_pattern_counterexample:
  "parsePrefix theConstants None = Parsed ('''', [], [])
   \<and> includesStr (toLowerCase ''Zapdos done'') ''done''
   \<and> matchAll progressRegex ''Zapdos done'' = []
   \<and> map_outcome classification
        (parseThread theConstants
           \<lparr>thread_id = 1, node_id = 758, title = ''Zapdos done'', phrase_text = None\<rparr>)
       = Parsed (''WIP'', '''', [Some ''9''], [''ou''])"
  by code_simp

subsection \<open>White space inside a match\<close>

text \<open>
  The numeric group of a match is a digit, at most one white space, the slash, at most
  one white space and a digit. When its white space is U+0020 only, the code compares
  the two digits: the stage read from one QC match, and from a QC and a GP match, is
  then as follows.
\<close>

lemma progressDigits_shape:
  assumes "(g, q) \<in> set (progressDigits p)"
  shows "\<exists>d1 w1 w2 d2. g = d1 # w1 @ CHR ''/'' # w2 @ [d2] \<and> isDigit d1 \<and> isDigit d2
           \<and> length w1 \<le> 1 \<and> length w2 \<le> 1 \<and> (\<forall>c \<in> set (w1 @ w2). isSpace c)"
proof -
  have ch: "\<exists>c. x = [c] \<and> P c" if "(x, q') \<in> set (rxChar P p')" for x q' P p'
    using that by (auto simp: rxChar_def split: list.splits if_splits)
  have op: "x = [] \<or> (\<exists>c. x = [c] \<and> P c)" if "(x, q') \<in> set (rxOpt (rxChar P) p')" for x q' P p'
    using that by (auto simp: rxOpt_def dest!: ch)
  have sq: "\<exists>x y p1. z = x @ y \<and> (x, p1) \<in> set (a p') \<and> (y, q') \<in> set (b p1)"
    if "(z, q') \<in> set (rxSeq a b p')" for z q' a b p'
    using that by (auto simp: rxSeq_def List.bind_def)
  from sq [OF assms [unfolded progressDigits_def]] obtain x1 r1 p1 where
    g1: "g = x1 @ r1" and x1: "(x1, p1) \<in> set (rxChar isDigit p)"
    and r1: "(r1, q) \<in> set (rxSeq (rxOpt (rxChar isSpace)) (rxSeq (rxChar (\<lambda>c. c = CHR ''/''))
       (rxSeq (rxOpt (rxChar isSpace)) (rxChar isDigit))) p1)" by blast
  from sq [OF r1] obtain x2 r2 p2 where
    g2: "r1 = x2 @ r2" and x2: "(x2, p2) \<in> set (rxOpt (rxChar isSpace) p1)"
    and r2: "(r2, q) \<in> set (rxSeq (rxChar (\<lambda>c. c = CHR ''/''))
       (rxSeq (rxOpt (rxChar isSpace)) (rxChar isDigit)) p2)" by blast
  from sq [OF r2] obtain x3 r3 p3 where
    g3: "r2 = x3 @ r3" and x3: "(x3, p3) \<in> set (rxChar (\<lambda>c. c = CHR ''/'') p2)"
    and r3: "(r3, q) \<in> set (rxSeq (rxOpt (rxChar isSpace)) (rxChar isDigit) p3)" by blast
  from sq [OF r3] obtain x4 x5 p4 where
    g4: "r3 = x4 @ x5" and x4: "(x4, p4) \<in> set (rxOpt (rxChar isSpace) p3)"
    and x5: "(x5, q) \<in> set (rxChar isDigit p4)" by blast
  from ch [OF x1] obtain d1 where d1: "x1 = [d1]" "isDigit d1" by blast
  from ch [OF x5] obtain d2 where d2: "x5 = [d2]" "isDigit d2" by blast
  from ch [OF x3] have s: "x3 = [CHR ''/'']" by blast
  from op [OF x2] have w1: "length x2 \<le> 1 \<and> (\<forall>c \<in> set x2. isSpace c)" by auto
  from op [OF x4] have w2: "length x4 \<le> 1 \<and> (\<forall>c \<in> set x4. isSpace c)" by auto
  have "g = d1 # x2 @ CHR ''/'' # x4 @ [d2]"
    by (simp add: g1 g2 g3 g4 d1 d2 s)
  with d1 d2 w1 w2 show ?thesis by auto
qed

lemma digit_not_sep: "isDigit c \<Longrightarrow> c \<noteq> CHR '' '' \<and> c \<noteq> CHR ''/''"
  by (auto simp: isDigit_def)

lemma plain_digits:
  assumes "(g, q) \<in> set (progressDigits p)" and "plainSpaces g"
  shows "replaceSpaces g = [hd g, CHR ''/'', last g]
         \<and> sidesEqual (replaceSpaces g) = (hd g = last g)"
proof -
  from progressDigits_shape [OF assms(1)] obtain d1 w1 w2 d2 where
    g: "g = d1 # w1 @ CHR ''/'' # w2 @ [d2]" and d: "isDigit d1" "isDigit d2"
    and w: "\<forall>c \<in> set (w1 @ w2). isSpace c" by blast
  from assms(2) w g have "\<forall>c \<in> set (w1 @ w2). c = CHR '' ''"
    by (auto simp: plainSpaces_def list_all_iff)
  then have f: "filter (\<lambda>c. c \<noteq> CHR '' '') w1 = []" "filter (\<lambda>c. c \<noteq> CHR '' '') w2 = []"
    by (auto simp: filter_empty_conv)
  from digit_not_sep [OF d(1)] digit_not_sep [OF d(2)] f
  have r: "replaceSpaces g = [d1, CHR ''/'', d2]"
    by (simp add: replaceSpaces_def g)
  moreover have "hd g = d1" "last g = d2" by (simp_all add: g)
  moreover have "sidesEqual [d1, CHR ''/'', d2] = (d1 = d2)"
    using digit_not_sep [OF d(1)] digit_not_sep [OF d(2)]
    by (simp add: sidesEqual_def at_def)
  ultimately show ?thesis by simp
qed

lemma progressRegex_parts:
  assumes "(m, q) \<in> set (progressRegex p)"
  shows "\<exists>b d g p2. m = [Some (b @ d @ g), Some b, Some g] \<and> length b = 2
           \<and> (g, q) \<in> set (progressDigits p2)"
proof -
  from assms obtain b p1 d p2 g where m: "m = [Some (b @ d @ g), Some b, Some g]"
    and b: "(b, p1) \<in> set (rxAlt (rxLit ''QC'') (rxLit ''GP'') p)"
    and g: "(g, q) \<in> set (progressDigits p2)"
    by (auto simp: progressRegex_def List.bind_def)
  from b have "length b = 2"
    by (auto simp: rxAlt_def rxLit_def Let_def split: if_splits)
  with m g show ?thesis by blast
qed

lemma matchAll_progress_parts:
  assumes "m \<in> set (matchAll progressRegex s)"
  shows "\<exists>b d g p2 q. m = [Some (b @ d @ g), Some b, Some g] \<and> length b = 2
           \<and> (g, q) \<in> set (progressDigits p2)"
  using assms matchAllFrom_elems [of m progressRegex "[]" s] progressRegex_parts
  unfolding matchAll_def by blast

lemma tagged_group1:
  assumes "m \<in> set (matchAll progressRegex s)" and "length tag = 2"
  shows "tagged tag m \<longleftrightarrow> (\<exists>b. grp m 1 = Some b \<and> toLowerCase b = tag)"
proof -
  from matchAll_progress_parts [OF assms(1)] obtain b d g p2 q where
    m: "m = [Some (b @ d @ g), Some b, Some g]" and b: "length b = 2"
    and g: "(g, q) \<in> set (progressDigits p2)" by blast
  from progressDigits_shape [OF g] have "3 \<le> length g" by auto
  then have "length (toLowerCase g) \<noteq> 2" "length (toLowerCase (b @ d @ g)) \<noteq> 2"
    by (simp_all add: toLowerCase_def)
  with assms(2) have "toLowerCase g \<noteq> tag" "toLowerCase (b @ d @ g) \<noteq> tag" by auto
  then show ?thesis by (simp add: tagged_def m grp_def at_def)
qed

lemma group2_plain:
  assumes "m \<in> set (matchAll progressRegex s)" and "grp m 2 = Some g" and "plainSpaces g"
  shows "stageProgressOf m = Parsed (replaceSpaces g)
         \<and> sidesEqual (replaceSpaces g) = (hd g = last g)
         \<and> replaceSpaces g = [hd g, CHR ''/'', last g] \<and> \<not> length m < 3"
proof -
  from matchAll_progress_parts [OF assms(1)] obtain b d g' p2 q where
    m: "m = [Some (b @ d @ g'), Some b, Some g']"
    and g': "(g', q) \<in> set (progressDigits p2)" by blast
  from m assms(2) have e: "g' = g" by (simp add: grp_def at_def)
  from plain_digits [OF g' [unfolded e] assms(3)]
  have "sidesEqual (replaceSpaces g) = (hd g = last g)"
    and "replaceSpaces g = [hd g, CHR ''/'', last g]" by blast+
  moreover have "stageProgressOf m = Parsed (replaceSpaces g)"
    by (simp add: stageProgressOf_def assms(2))
  moreover have "\<not> length m < 3" by (simp add: m)
  ultimately show ?thesis by blast
qed

lemma single_qc_plain:
  assumes pre: "parsePrefix k (phrase_text t) = Parsed ('''', g0, t0)"
    and nd: "\<not> includesStr (toLowerCase (title t)) ''done''"
    and one: "matchAll progressRegex (title t) = [m]"
    and qc: "grp m 1 = Some b" "toLowerCase b = ''qc''"
    and g: "grp m 2 = Some g" "plainSpaces g"
  shows "parseThread k t =
           (if hd g = last g then resolveAndPush k t g0 t0 ''GP'' ''0/?''
            else resolveAndPush k t g0 t0 ''QC'' (replaceSpaces g))
         \<and> replaceSpaces g = [hd g, CHR ''/'', last g]"
proof -
  have m: "m \<in> set (matchAll progressRegex (title t))" by (simp add: one)
  have tq: "tagged ''qc'' m" using tagged_group1 [OF m, of "''qc''"] qc by simp
  have tg: "\<not> tagged ''gp'' m" using tagged_group1 [OF m, of "''gp''"] qc by auto
  from group2_plain [OF m g] have sp: "stageProgressOf m = Parsed (replaceSpaces g)"
    and se: "sidesEqual (replaceSpaces g) = (hd g = last g)"
    and r: "replaceSpaces g = [hd g, CHR ''/'', last g]" by blast+
  have "determineStage (title t) =
          (if hd g = last g then Parsed (''GP'', ''0/?'') else Parsed (''QC'', replaceSpaces g))"
    by (simp add: determineStage_def one nd tq tg sp se)
  moreover from r have "replaceSpaces g \<noteq> []" by simp
  ultimately have "parseThread k t =
           (if hd g = last g then resolveAndPush k t g0 t0 ''GP'' ''0/?''
            else resolveAndPush k t g0 t0 ''QC'' (replaceSpaces g))"
    using pre by (simp add: parseThread_def bindO_def)
  with r show ?thesis by blast
qed

lemma qc_gp_plain:
  assumes pre: "parsePrefix k (phrase_text t) = Parsed ('''', g0, t0)"
    and nd: "\<not> includesStr (toLowerCase (title t)) ''done''"
    and two: "2 \<le> length (matchAll progressRegex (title t))"
    and qm: "filter (tagged ''qc'') (matchAll progressRegex (title t)) = qm # qs"
    and gm: "filter (tagged ''gp'') (matchAll progressRegex (title t)) = gm # gs"
    and q: "grp qm 2 = Some q" "plainSpaces q"
    and g: "grp gm 2 = Some g" "plainSpaces g"
  shows "parseThread k t =
           (if hd q \<noteq> last q then resolveAndPush k t g0 t0 ''QC'' (replaceSpaces q)
            else if hd g \<noteq> last g then resolveAndPush k t g0 t0 ''GP'' (replaceSpaces g)
            else resolveAndPush k t g0 t0 ''Done'' '''')
         \<and> replaceSpaces q = [hd q, CHR ''/'', last q]
         \<and> replaceSpaces g = [hd g, CHR ''/'', last g]"
proof -
  from filter_head_in [OF qm] have qin: "qm \<in> set (matchAll progressRegex (title t))" by simp
  from filter_head_in [OF gm] have gin: "gm \<in> set (matchAll progressRegex (title t))" by simp
  from group2_plain [OF qin q] have qsp: "stageProgressOf qm = Parsed (replaceSpaces q)"
    and qse: "sidesEqual (replaceSpaces q) = (hd q = last q)"
    and qr: "replaceSpaces q = [hd q, CHR ''/'', last q]"
    and ql: "\<not> length qm < 3" by blast+
  from group2_plain [OF gin g] have gsp: "stageProgressOf gm = Parsed (replaceSpaces g)"
    and gse: "sidesEqual (replaceSpaces g) = (hd g = last g)"
    and gr: "replaceSpaces g = [hd g, CHR ''/'', last g]"
    and gl: "\<not> length gm < 3" by blast+
  from two have ne: "matchAll progressRegex (title t) \<noteq> []" by auto
  have "determineStage (title t) =
          (if hd q \<noteq> last q then Parsed (''QC'', replaceSpaces q)
           else if hd g \<noteq> last g then Parsed (''GP'', replaceSpaces g)
           else Parsed (''Done'', ''''))"
    by (simp add: determineStage_def ne nd two qm gm qsp qse ql gsp gse gl)
  moreover from qr gr have "replaceSpaces q \<noteq> []" "replaceSpaces g \<noteq> []" by simp_all
  ultimately have "parseThread k t =
           (if hd q \<noteq> last q then resolveAndPush k t g0 t0 ''QC'' (replaceSpaces q)
            else if hd g \<noteq> last g then resolveAndPush k t g0 t0 ''GP'' (replaceSpaces g)
            else resolveAndPush k t g0 t0 ''Done'' '''')"
    using pre by (simp add: parseThread_def bindO_def determineProgress_def Let_def)
  with qr gr show ?thesis by blast
qed


text \<open>
  C5. A thread with no prefix text whose title has exactly one numeric match, tagged
  QC, with the two digits equal (1 and 1) but a tab between the first digit and the
  slash. The pattern admits any white space there, the removal takes out U+0020 only,
  so the two sides of the slash are compared as \<open>1<tab>\<close> and \<open>1\<close>: the
  classifier yields stage QC with the progress \<open>1<tab>/1\<close>, not stage GP
  with \<open>0/?\<close>.
\<close>

theorem single_qc_tab_evaluation:
  "parsePrefix theConstants None = Parsed ('''', [], [])
   \<and> \<not> includesStr (toLowerCase (''Zapdos [QC 1'' @ [CHR 0x09] @ ''/1]'')) ''done''
   \<and> matchAll progressRegex (''Zapdos [QC 1'' @ [CHR 0x09] @ ''/1]'')
       = [[Some (''QC 1'' @ [CHR 0x09] @ ''/1''), Some ''QC'', Some (''1'' @ [CHR 0x09] @ ''/1'')]]
   \<and> map_outcome classification
        (parseThread theConstants
           \<lparr>thread_id = 1, node_id = 758, title = ''Zapdos [QC 1'' @ [CHR 0x09] @ ''/1]'',
              phrase_text = None\<rparr>)
       = Parsed (''QC'', ''1'' @ [CHR 0x09] @ ''/1'', [Some ''9''], [''ou''])"
  by code_simp

text \<open>
  C1. A thread with no prefix text whose title has a QC match and a GP match, the QC
  digits equal (1 and 1, with a tab before the slash) and the GP digits different
  (0 and 1): the classifier yields stage QC with the progress \<open>1<tab>/1\<close>, not
  stage GP with \<open>0/1\<close>. The same title with a space in place of the tab yields
  stage GP with \<open>0/1\<close>.
\<close>

theorem qc_gp_tab_evaluation:
  "parsePrefix theConstants None = Parsed ('''', [], [])
   \<and> \<not> includesStr (toLowerCase (''Zapdos [QC 1'' @ [CHR 0x09] @ ''/1] [GP 0/1]'')) ''done''
   \<and> matchAll progressRegex (''Zapdos [QC 1'' @ [CHR 0x09] @ ''/1] [GP 0/1]'')
       = [[Some (''QC 1'' @ [CHR 0x09] @ ''/1''), Some ''QC'', Some (''1'' @ [CHR 0x09] @ ''/1'')],
          [Some ''GP 0/1'', Some ''GP'', Some ''0/1'']]
   \<and> map_outcome classification
        (parseThread theConstants
           \<lparr>thread_id = 1, node_id = 758,
              title = ''Zapdos [QC 1'' @ [CHR 0x09] @ ''/1] [GP 0/1]'', phrase_text = None\<rparr>)
       = Parsed (''QC'', ''1'' @ [CHR 0x09] @ ''/1'', [Some ''9''], [''ou''])
   \<and> map_outcome classification
        (parseThread theConstants
           \<lparr>thread_id = 1, node_id = 758, title = ''Zapdos [QC 1 /1] [GP 0/1]'',
              phrase_text = None\<rparr>)
       = Parsed (''GP'', ''0/1'', [Some ''9''], [''ou''])"
  by code_simp

section \<open>Properties of the alerts and of the cycle\<close>

text \<open>
  The text chosen by either variant against the rule, what the loops send and to whom,
  and that no channel id is sent to twice by one call.
\<close>

lemma alertmsgSync_rule: "alertmsgSync d = messageRule d"
  by (auto simp: alertmsgSync_def messageRule_def)

lemma alertmsgDiag_rule:
  "alertmsgDiag d = (case messageRule d of None \<Rightarrow> Plain ''Not QC or Done'' | Some txt \<Rightarrow> txt)"
  by (auto simp: alertmsgDiag_def messageRule_def)

lemma alertLoopSync_sends:
  "(c, m) \<in> set (alertLoopSync cl d ps chans) \<Longrightarrow>
     \<exists>a \<in> set chans. c = channelid a \<and> sendable (cl c) \<and>
        (\<exists>txt. alertmsgSync d = Some txt \<and> m = withRole (role a) txt)"
proof (induction chans arbitrary: ps)
  case Nil
  then show ?case by simp
next
  case (Cons a chans)
  show ?case
  proof (cases "channelid a \<in> set ps")
    case True
    with Cons.prems have "(c, m) \<in> set (alertLoopSync cl d ps chans)" by simp
    from Cons.IH [OF this] show ?thesis by auto
  next
    case False
    show ?thesis
    proof (cases "sendable (cl (channelid a))")
      case s: False
      with False Cons.prems show ?thesis by simp
    next
      case s: True
      show ?thesis
      proof (cases "alertmsgSync d")
        case None
        with False s Cons.prems show ?thesis by simp
      next
        case (Some tx)
        with False s Cons.prems
        consider "c = channelid a" "m = withRole (role a) tx"
          | "(c, m) \<in> set (alertLoopSync cl d (ps @ [channelid a]) chans)"
          by auto
        then show ?thesis
        proof cases
          case 1
          with s Some show ?thesis by auto
        next
          case 2
          from Cons.IH [OF this] show ?thesis by auto
        qed
      qed
    qed
  qed
qed

lemma alertLoopDiag_sends:
  "(c, m) \<in> set (alertLoopDiag cl d ps chans) \<Longrightarrow>
     \<exists>a \<in> set chans. c = channelid a \<and> sendable (cl c) \<and> m = withRole (role a) (alertmsgDiag d)"
proof (induction chans arbitrary: ps)
  case Nil
  then show ?case by simp
next
  case (Cons a chans)
  show ?case
  proof (cases "channelid a \<in> set ps")
    case True
    with Cons.prems have "(c, m) \<in> set (alertLoopDiag cl d ps chans)" by simp
    from Cons.IH [OF this] show ?thesis by auto
  next
    case False
    show ?thesis
    proof (cases "sendable (cl (channelid a))")
      case s: False
      with False Cons.prems show ?thesis by simp
    next
      case s: True
      with False Cons.prems
      consider "c = channelid a" "m = withRole (role a) (alertmsgDiag d)"
        | "(c, m) \<in> set (alertLoopDiag cl d (ps @ [channelid a]) chans)"
        by auto
      then show ?thesis
      proof cases
        case 1
        with s show ?thesis by auto
      next
        case 2
        from Cons.IH [OF this] show ?thesis by auto
      qed
    qed
  qed
qed

lemma alertLoopSync_none: "alertmsgSync d = None \<Longrightarrow> alertLoopSync cl d ps chans = []"
  by (induction chans arbitrary: ps) auto

lemma alertLoopDiag_fresh: "fst ` set (alertLoopDiag cl d ps chans) \<inter> set ps = {}"
proof (induction chans arbitrary: ps)
  case Nil
  then show ?case by simp
next
  case (Cons a chans)
  have "fst ` set (alertLoopDiag cl d (ps @ [channelid a]) chans) \<inter> set (ps @ [channelid a]) = {}"
    by (rule Cons.IH)
  then have "fst ` set (alertLoopDiag cl d (ps @ [channelid a]) chans) \<inter> set ps = {}"
    by auto
  with Cons.IH [of ps] show ?case by auto
qed

lemma alertLoopDiag_distinct: "distinct (map fst (alertLoopDiag cl d ps chans))"
proof (induction chans arbitrary: ps)
  case Nil
  then show ?case by simp
next
  case (Cons a chans)
  have "fst ` set (alertLoopDiag cl d (ps @ [channelid a]) chans) \<inter> set (ps @ [channelid a]) = {}"
    by (rule alertLoopDiag_fresh)
  then have "channelid a \<notin> fst ` set (alertLoopDiag cl d (ps @ [channelid a]) chans)"
    by auto
  with Cons.IH show ?case by auto
qed

lemma alertCCStatus_distinct: "distinct (map fst (alertCCStatus d old cl))"
  by (simp add: alertCCStatus_def Let_def alertLoopDiag_distinct)

lemma updateLoop_concat:
  "updateLoop alert cl old ds =
     concat (map (\<lambda>d. if changed d old
                       then map (\<lambda>(c, m). Send (thread_id d) c m) (alert d old cl)
                            @ [UpdateCCCache (statusOf d) False]
                       else []) ds)"
  by (induction ds) auto

text \<open>
  An unchanged thread adds nothing to the effects of the loop, and the threads after it
  are processed as if it were not there.
\<close>

lemma unchanged_passed_over:
  "\<not> changed d old \<Longrightarrow>
     updateLoop alert cl old (xs @ d # ys)
       = updateLoop alert cl old xs @ updateLoop alert cl old ys"
  by (simp add: updateLoop_concat)

text \<open>When every channel can be sent to, every channel set up for the thread is sent to.\<close>

lemma alertLoopDiag_all:
  "\<forall>a\<in>set chans. sendable (cl (channelid a)) \<Longrightarrow>
     fst ` set (alertLoopDiag cl d ps chans) = channelid ` set chans - set ps"
proof (induction chans arbitrary: ps)
  case Nil
  then show ?case by simp
next
  case (Cons a chans)
  then have ih: "fst ` set (alertLoopDiag cl d qs chans) = channelid ` set chans - set qs" for qs
    by simp
  from Cons.prems have s: "sendable (cl (channelid a))" by simp
  show ?case
  proof (cases "channelid a \<in> set ps")
    case True
    then show ?thesis using ih [of ps] by auto
  next
    case False
    then show ?thesis using s ih [of "ps @ [channelid a]"] by auto
  qed
qed

text \<open>
  Where the rule gives a text, the two variants of the loop send the same messages.
\<close>

lemma alertLoopSync_Diag:
  "alertmsgSync d = Some tx \<Longrightarrow> alertLoopSync cl d ps chans = alertLoopDiag cl d ps chans"
proof (induction chans arbitrary: ps)
  case Nil
  then show ?case by simp
next
  case (Cons a chans)
  from Cons.prems have "alertmsgDiag d = tx"
    by (simp add: alertmsgSync_rule alertmsgDiag_rule)
  with Cons show ?case by simp
qed

text \<open>
  When every channel can be sent to, the first row of each channel that is not yet
  processed is the one whose message is sent.
\<close>

lemma alertLoopDiag_first:
  "\<forall>a\<in>set chans. sendable (cl (channelid a)) \<Longrightarrow> c \<notin> set ps \<Longrightarrow>
     find (\<lambda>b. channelid b = c) chans = Some b \<Longrightarrow>
     (c, withRole (role b) (alertmsgDiag d)) \<in> set (alertLoopDiag cl d ps chans)"
proof (induction chans arbitrary: ps)
  case Nil
  then show ?case by simp
next
  case (Cons a chans)
  from Cons.prems(1) have s: "sendable (cl (channelid a))"
    and r: "\<forall>a\<in>set chans. sendable (cl (channelid a))" by simp_all
  show ?case
  proof (cases "channelid a = c")
    case True
    with Cons.prems(3) have "b = a" by simp
    with True Cons.prems(2) s show ?thesis by simp
  next
    case False
    with Cons.prems(3) have f: "find (\<lambda>b. channelid b = c) chans = Some b" by simp
    show ?thesis
    proof (cases "channelid a \<in> set ps")
      case True
      with Cons.IH [OF r Cons.prems(2) f] show ?thesis by simp
    next
      case n: False
      from False Cons.prems(2) have "c \<notin> set (ps @ [channelid a])" by auto
      from Cons.IH [OF r this f] n s show ?thesis by simp
    qed
  qed
qed

lemma filter_fst_single:
  "distinct (map fst xs) \<Longrightarrow> (c, m) \<in> set xs \<Longrightarrow> filter (\<lambda>p. fst p = c) xs = [(c, m)]"
proof (induction xs)
  case Nil
  then show ?case by simp
next
  case (Cons x xs)
  show ?case
  proof (cases "x = (c, m)")
    case True
    with Cons.prems(1) have "c \<notin> fst ` set xs" by auto
    then have "filter (\<lambda>p. fst p = c) xs = []" by (auto simp: filter_empty_conv)
    with True show ?thesis by simp
  next
    case False
    with Cons.prems(2) have i: "(c, m) \<in> set xs" by simp
    then have "c \<in> fst ` set xs" by force
    with Cons.prems(1) have "fst x \<noteq> c" by auto
    with Cons.IH i Cons.prems(1) show ?thesis by simp
  qed
qed

lemma find_channel_row:
  "a \<in> set chans \<Longrightarrow> \<exists>b. find (\<lambda>b. channelid b = channelid a) chans = Some b"
  by (cases "find (\<lambda>b. channelid b = channelid a) chans") (auto simp: find_None_iff)

lemma parseThread_id: "parseThread k t = Parsed d \<Longrightarrow> thread_id d = thread_id t"
  by (auto simp: parseThread_def resolveAndPush_def bindO_def split: outcome.splits prod.splits if_splits)

lemma parseCCStage_ids:
  "parseCCStage k ts = Inr ds \<Longrightarrow>
     set (map thread_id ds) \<subseteq> set (map thread_id ts)
     \<and> (distinct (map thread_id ts) \<longrightarrow> distinct (map thread_id ds))"
proof (induction ts arbitrary: ds)
  case Nil
  then show ?case by simp
next
  case (Cons t ts)
  show ?case
  proof (cases "parseThread k t")
    case Skipped
    with Cons.prems have "parseCCStage k ts = Inr ds" by simp
    from Cons.IH [OF this] show ?thesis by auto
  next
    case (Failed e)
    with Cons.prems show ?thesis by simp
  next
    case (Parsed d)
    with Cons.prems obtain ds' where r: "parseCCStage k ts = Inr ds'" and ds: "ds = d # ds'"
      by (auto split: sum.splits)
    from parseThread_id [OF Parsed] have "thread_id d = thread_id t" .
    with Cons.IH [OF r] ds show ?thesis by auto
  qed
qed

lemma sentTo_append: "sentTo (es1 @ es2) = sentTo es1 @ sentTo es2"
  by (induction es1 rule: sentTo.induct) auto

lemma sentTo_sends: "sentTo (map (\<lambda>(c, m). Send i c m) xs) = map (\<lambda>(c, m). (i, c)) xs"
  by (induction xs) auto

lemma sentTo_uncache: "sentTo (uncacheRemovedThreads cur old) = []"
proof -
  have "sentTo (map (\<lambda>x. UpdateCCCache x True) xs) = []" for xs
    by (induction xs) auto
  then show ?thesis by (simp add: uncacheRemovedThreads_def Let_def)
qed

lemma sentTo_updateLoop_ids:
  "(i, c) \<in> set (sentTo (updateLoop alert cl old ds)) \<Longrightarrow> i \<in> thread_id ` set ds"
  by (induction ds) (auto simp: sentTo_append sentTo_sends split: if_splits)

lemma sentTo_updateLoop_distinct:
  assumes "\<And>d. distinct (map fst (alert d old cl))" and "distinct (map thread_id ds)"
  shows "distinct (sentTo (updateLoop alert cl old ds))"
  using assms(2)
proof (induction ds)
  case Nil
  then show ?case by simp
next
  case (Cons d ds)
  have a: "distinct (map (\<lambda>(c, m). (thread_id d, c)) (alert d old cl))"
    using assms(1) [of d] by (simp add: distinct_map inj_on_def case_prod_unfold)
  have b: "set (map (\<lambda>(c, m). (thread_id d, c)) (alert d old cl))
             \<inter> set (sentTo (updateLoop alert cl old ds)) = {}"
  proof -
    have "i \<noteq> thread_id d" if "(i, c) \<in> set (sentTo (updateLoop alert cl old ds))" for i c
      using sentTo_updateLoop_ids [OF that] Cons.prems by (metis distinct.simps(2) list.simps(9) list.set_map)
    then show ?thesis by auto
  qed
  from Cons a b show ?case
    by (auto simp: sentTo_append sentTo_sends)
qed

text \<open>
  C6, as the code has it. Both variants of \<^verbatim>\<open>alertCCStatus\<close> choose the text by
  the rule \<open>messageRule\<close>: ready for QC or GP when the progress starts with 0, the
  stage and the progress for Done and for QC with any other progress, and no status
  text for GP with any other progress and for every other stage. Where the rule gives
  a text and the client can fetch the channel of every subscription row of the thread's
  tiers and generations as a text or thread channel, the two variants send the same
  messages, and every such channel is sent exactly one message: that text, behind the
  role of the first row of the channel. Whatever the client can fetch, every message
  sent goes to a fetched channel of such a row and, where the rule gives a text,
  carries it. Where the rule gives no text, the synchronous variant sends nothing and
  no variant sends a status text. The loop of the cycle writes a changed thread to the
  cache whatever its stage.
\<close>

theorem alert_message_rule:
  "alertmsgSync d = messageRule d
   \<and> (\<forall>tx. messageRule d = Some tx \<longrightarrow> alertmsgDiag d = tx)
   \<and> (\<forall>tx. messageRule d = Some tx
            \<and> (\<forall>a \<in> set (alertChansFor d old). sendable (cl (channelid a))) \<longrightarrow>
         alertCCStatusSync d old cl = alertCCStatus d old cl
         \<and> (\<forall>a \<in> set (alertChansFor d old).
              \<exists>b. find (\<lambda>b. channelid b = channelid a) (alertChansFor d old) = Some b
                 \<and> filter (\<lambda>p. fst p = channelid a) (alertCCStatus d old cl)
                     = [(channelid a, withRole (role b) tx)]))
   \<and> (\<forall>c m. (c, m) \<in> set (alertCCStatusSync d old cl) \<union> set (alertCCStatus d old cl) \<longrightarrow>
         (\<exists>a \<in> set (alertChansFor d old).
            c = channelid a \<and> sendable (cl c)
            \<and> (\<forall>tx. messageRule d = Some tx \<longrightarrow> m = withRole (role a) tx)))
   \<and> (messageRule d = None \<longrightarrow>
         alertCCStatusSync d old cl = []
         \<and> (\<forall>c r i s. (c, Message r (Update i s)) \<notin> set (alertCCStatus d old cl)))
   \<and> (changed d old \<longrightarrow>
         UpdateCCCache (statusOf d) False \<in> set (updateLoop alertCCStatusSync cl old (d # rest))
         \<and> UpdateCCCache (statusOf d) False \<in> set (updateLoop alertCCStatus cl old (d # rest)))"
proof -
  let ?chans = "alertChansFor d old"
  have sync: "alertCCStatusSync d old cl = alertLoopSync cl d [] ?chans"
    by (simp add: alertCCStatusSync_def Let_def)
  have diag: "alertCCStatus d old cl = alertLoopDiag cl d [] ?chans"
    by (simp add: alertCCStatus_def Let_def)
  have text_of: "alertmsgDiag d = tx" if "messageRule d = Some tx" for tx
    using that by (simp add: alertmsgDiag_rule)
  have same: "alertCCStatusSync d old cl = alertCCStatus d old cl"
    if "messageRule d = Some tx" for tx
    using that by (simp add: sync diag alertLoopSync_Diag alertmsgSync_rule)
  have every: "\<exists>b. find (\<lambda>b. channelid b = channelid a) ?chans = Some b
                 \<and> filter (\<lambda>p. fst p = channelid a) (alertCCStatus d old cl)
                     = [(channelid a, withRole (role b) tx)]"
    if r: "messageRule d = Some tx"
      and s: "\<forall>a \<in> set ?chans. sendable (cl (channelid a))"
      and a: "a \<in> set ?chans" for tx a
  proof -
    from find_channel_row [OF a]
    obtain b where b: "find (\<lambda>b. channelid b = channelid a) ?chans = Some b" by blast
    have "(channelid a, withRole (role b) (alertmsgDiag d)) \<in> set (alertLoopDiag cl d [] ?chans)"
      by (rule alertLoopDiag_first [OF s _ b]) simp
    then have "(channelid a, withRole (role b) tx) \<in> set (alertCCStatus d old cl)"
      by (simp add: diag text_of [OF r])
    from filter_fst_single [OF alertCCStatus_distinct this] b show ?thesis by blast
  qed
  have content: "\<exists>a \<in> set ?chans. c = channelid a \<and> sendable (cl c)
            \<and> (\<forall>tx. messageRule d = Some tx \<longrightarrow> m = withRole (role a) tx)"
    if "(c, m) \<in> set (alertCCStatusSync d old cl) \<union> set (alertCCStatus d old cl)" for c m
  proof -
    from that consider "(c, m) \<in> set (alertLoopSync cl d [] ?chans)"
      | "(c, m) \<in> set (alertLoopDiag cl d [] ?chans)"
      by (auto simp: sync diag)
    then show ?thesis
    proof cases
      case 1
      from alertLoopSync_sends [OF this] show ?thesis
        by (auto simp: alertmsgSync_rule)
    next
      case 2
      from alertLoopDiag_sends [OF this] show ?thesis
        by (auto simp: text_of)
    qed
  qed
  have none: "alertCCStatusSync d old cl = []
         \<and> (\<forall>c r i s. (c, Message r (Update i s)) \<notin> set (alertCCStatus d old cl))"
    if n: "messageRule d = None"
  proof
    from n show "alertCCStatusSync d old cl = []"
      by (simp add: sync alertLoopSync_none alertmsgSync_rule)
    from n have p: "alertmsgDiag d = Plain ''Not QC or Done''"
      by (simp add: alertmsgDiag_rule)
    show "\<forall>c r i s. (c, Message r (Update i s)) \<notin> set (alertCCStatus d old cl)"
    proof (intro allI notI)
      fix c r i s
      assume "(c, Message r (Update i s)) \<in> set (alertCCStatus d old cl)"
      then have "(c, Message r (Update i s)) \<in> set (alertLoopDiag cl d [] ?chans)"
        by (simp add: diag)
      from alertLoopDiag_sends [OF this] p show False
        by (auto simp: withRole_def split: option.splits if_splits)
    qed
  qed
  have cache: "UpdateCCCache (statusOf d) False \<in> set (updateLoop alertCCStatusSync cl old (d # rest))
         \<and> UpdateCCCache (statusOf d) False \<in> set (updateLoop alertCCStatus cl old (d # rest))"
    if "changed d old"
    using that by simp
  show ?thesis
  proof (intro conjI)
    show "alertmsgSync d = messageRule d" by (rule alertmsgSync_rule)
    show "\<forall>tx. messageRule d = Some tx \<longrightarrow> alertmsgDiag d = tx" using text_of by blast
    show "\<forall>tx. messageRule d = Some tx
            \<and> (\<forall>a \<in> set (alertChansFor d old). sendable (cl (channelid a))) \<longrightarrow>
         alertCCStatusSync d old cl = alertCCStatus d old cl
         \<and> (\<forall>a \<in> set (alertChansFor d old).
              \<exists>b. find (\<lambda>b. channelid b = channelid a) (alertChansFor d old) = Some b
                 \<and> filter (\<lambda>p. fst p = channelid a) (alertCCStatus d old cl)
                     = [(channelid a, withRole (role b) tx)])"
      using same every by blast
    show "\<forall>c m. (c, m) \<in> set (alertCCStatusSync d old cl) \<union> set (alertCCStatus d old cl) \<longrightarrow>
         (\<exists>a \<in> set (alertChansFor d old).
            c = channelid a \<and> sendable (cl c)
            \<and> (\<forall>tx. messageRule d = Some tx \<longrightarrow> m = withRole (role a) tx))"
      using content by blast
    show "messageRule d = None \<longrightarrow>
         alertCCStatusSync d old cl = []
         \<and> (\<forall>c r i s. (c, Message r (Update i s)) \<notin> set (alertCCStatus d old cl))"
      using none by blast
    show "changed d old \<longrightarrow>
         UpdateCCCache (statusOf d) False \<in> set (updateLoop alertCCStatusSync cl old (d # rest))
         \<and> UpdateCCCache (statusOf d) False \<in> set (updateLoop alertCCStatus cl old (d # rest))"
      using cache by blast
  qed
qed

text \<open>
  Instances. A thread at the start of QC, with two subscription rows of one channel
  that the client fetches: both variants send the channel one message, ready for QC,
  and the thread is written to the cache. A thread in GP with one check of two: the
  synchronous variant sends nothing.
\<close>

theorem alert_message_rule_witness:
  "messageRule parsed763 = Some (Update 100 ''Ready for QC'')
   \<and> list_all (\<lambda>a. sendable (clientC (channelid a))) (alertChansFor parsed763 subscribedC)
   \<and> map channelid (alertChansFor parsed763 subscribedC) = [''C'', ''C'']
   \<and> filter (\<lambda>p. fst p = ''C'') (alertCCStatus parsed763 subscribedC clientC)
       = [(''C'', Message None (Update 100 ''Ready for QC''))]
   \<and> alertCCStatusSync parsed763 subscribedC clientC
       = alertCCStatus parsed763 subscribedC clientC
   \<and> alertmsgSync parsed763 = Some (Update 100 ''Ready for QC'')
   \<and> alertmsgDiag parsed763 = Update 100 ''Ready for QC''
   \<and> changed parsed763 subscribedC
   \<and> UpdateCCCache (statusOf parsed763) False
        \<in> set (updateLoop alertCCStatus clientC subscribedC [parsed763])
   \<and> UpdateCCCache (statusOf parsed763) False
        \<in> set (updateLoop alertCCStatusSync clientC subscribedC [parsed763])
   \<and> messageRule parsedGP = None
   \<and> alertCCStatusSync parsedGP subscribedC clientC = []"
proof -
  let ?row = "\<lparr>channelid = ''C'', chan_tier = ''nfe'', chan_gen = ''9'', role = None\<rparr>"
  have r: "messageRule parsed763 = Some (Update 100 ''Ready for QC'')" by code_simp
  have s: "list_all (\<lambda>a. sendable (clientC (channelid a))) (alertChansFor parsed763 subscribedC)"
    by code_simp
  have ids: "map channelid (alertChansFor parsed763 subscribedC) = [''C'', ''C'']" by code_simp
  have a: "?row \<in> set (alertChansFor parsed763 subscribedC)" by code_simp
  have f: "find (\<lambda>b. channelid b = ''C'') (alertChansFor parsed763 subscribedC) = Some ?row"
    by code_simp
  have c: "changed parsed763 subscribedC" by code_simp
  have n: "messageRule parsedGP = None" by code_simp
  note t = alert_message_rule [of parsed763 subscribedC clientC "[]"]
  from s have s': "\<forall>a \<in> set (alertChansFor parsed763 subscribedC). sendable (clientC (channelid a))"
    by (simp add: list_all_iff)
  from t r have m: "alertmsgSync parsed763 = Some (Update 100 ''Ready for QC'')"
    and g: "alertmsgDiag parsed763 = Update 100 ''Ready for QC''"
    by simp_all
  from t r s' have e: "alertCCStatusSync parsed763 subscribedC clientC
       = alertCCStatus parsed763 subscribedC clientC"
    by blast
  from t r s' a
  obtain b where fb: "find (\<lambda>b. channelid b = channelid ?row) (alertChansFor parsed763 subscribedC) = Some b"
    and sb: "filter (\<lambda>p. fst p = channelid ?row) (alertCCStatus parsed763 subscribedC clientC)
           = [(channelid ?row, withRole (role b) (Update 100 ''Ready for QC''))]"
    by blast
  from fb f have "b = ?row" by simp
  with sb have one: "filter (\<lambda>p. fst p = ''C'') (alertCCStatus parsed763 subscribedC clientC)
       = [(''C'', Message None (Update 100 ''Ready for QC''))]"
    by (simp add: withRole_def)
  from t c have u: "UpdateCCCache (statusOf parsed763) False
        \<in> set (updateLoop alertCCStatus clientC subscribedC [parsed763])"
    and v: "UpdateCCCache (statusOf parsed763) False
        \<in> set (updateLoop alertCCStatusSync clientC subscribedC [parsed763])"
    by blast+
  from alert_message_rule [of parsedGP subscribedC clientC "[]"] n
  have z: "alertCCStatusSync parsedGP subscribedC clientC = []" by blast
  from r s ids one e m g c u v n z show ?thesis by blast
qed

text \<open>
  A thread in GP with one check of two: the synchronous variant sends nothing and the
  diagnostic variant sends \<open>Not QC or Done\<close>, neither the stage and progress. A
  thread in WIP: the diagnostic variant sends \<open>Not QC or Done\<close> to the channel. A
  thread at the start of QC whose first subscription row names a channel that the
  client cannot fetch: neither variant sends anything, the channel of the rows behind
  it, which the client fetches, is not told that the thread is ready for QC.
\<close>

theorem generic_message_counterexample:
  "map_outcome (\<lambda>d. (stage d, progress d, alertCCStatusSync d subscribedC clientC,
                      alertCCStatus d subscribedC clientC))
     (parseThread theConstants threadGP)
   = Parsed (''GP'', ''1/2'', [], [(''C'', Message None (Plain ''Not QC or Done''))])
   \<and> map_outcome (\<lambda>d. (stage d, progress d, alertCCStatus d subscribedC clientC))
     (parseThread theConstants threadWIP)
   = Parsed (''WIP'', '''', [(''C'', Message None (Plain ''Not QC or Done''))])
   \<and> map_outcome (\<lambda>d. (stage d, progress d, map channelid (alertChansFor d subscribedXC),
                        map (\<lambda>a. sendable (clientC (channelid a))) (alertChansFor d subscribedXC),
                        alertCCStatusSync d subscribedXC clientC,
                        alertCCStatus d subscribedXC clientC))
     (parseThread theConstants thread763)
   = Parsed (''QC'', ''0/2'', [''X'', ''C'', ''C''], [False, True, True], [], [])"
  by code_simp

text \<open>
  C8. In a cycle over threads with distinct ids, no pair of a thread and a channel id
  is sent to twice; and one call of \<^verbatim>\<open>alertCCStatus\<close> sends to no channel id twice,
  however many subscription rows of the thread's tiers and generations name it.
\<close>

theorem one_alert_per_channel:
  assumes "distinct (map thread_id threadData)"
    and "checkCCUpdates k cl old threadData = Inr es"
  shows "distinct (sentTo es) \<and> (\<forall>d. distinct (map fst (alertCCStatus d old cl)))"
proof (cases "threadData = []")
  case True
  with assms(2) show ?thesis
    by (auto simp: checkCCUpdates_def sentTo_uncache alertCCStatus_distinct)
next
  case False
  with assms(2) obtain ds where p: "parseCCStage k threadData = Inr ds"
    and es: "es = updateLoop alertCCStatus cl old ds @ uncacheRemovedThreads threadData old"
    by (auto simp: checkCCUpdates_def split: sum.splits)
  from parseCCStage_ids [OF p] assms(1) have "distinct (map thread_id ds)" by simp
  then have "distinct (sentTo (updateLoop alertCCStatus cl old ds))"
    by (rule sentTo_updateLoop_distinct [where alert = alertCCStatus, OF alertCCStatus_distinct])
  with es show ?thesis
    by (simp add: sentTo_append sentTo_uncache alertCCStatus_distinct)
qed

text \<open>
  An instance: two rows, for two tiers of the thread, name the channel \<open>C\<close>; the
  cycle sends to it once for each of the three threads.
\<close>

theorem one_alert_per_channel_witness:
  "distinct (map thread_id [thread763, threadGP, threadWIP])
   \<and> length (alertChansFor parsed763 subscribedC) = 2
   \<and> checkCCUpdates theConstants clientC subscribedC [thread763, threadGP, threadWIP]
       = Inr effects763
   \<and> distinct (sentTo effects763)
   \<and> sentTo effects763 = [(100, ''C''), (102, ''C''), (103, ''C'')]"
proof -
  have h1: "distinct (map thread_id [thread763, threadGP, threadWIP])" by code_simp
  have h2: "checkCCUpdates theConstants clientC subscribedC [thread763, threadGP, threadWIP]
       = Inr effects763"
    by code_simp
  have h3: "length (alertChansFor parsed763 subscribedC) = 2" by code_simp
  have h4: "sentTo effects763 = [(100, ''C''), (102, ''C''), (103, ''C'')]" by code_simp
  from one_alert_per_channel [OF h1 h2] have "distinct (sentTo effects763)" by simp
  with h1 h2 h3 h4 show ?thesis by simp
qed

text \<open>The cache after a list of effects: what a write can add and what the removals take.\<close>

lemma cacheAfter_append:
  "cacheAfter dd c (es1 @ es2) = cacheAfter dd (cacheAfter dd c es1) es2"
  by (induction dd c es1 rule: cacheAfter.induct) auto

lemma dom_cacheAfter_writes:
  "dom (cacheAfter dd c es) \<subseteq> dom c \<union> {cc_thread_id d |d. UpdateCCCache d False \<in> set es}"
proof (induction dd c es rule: cacheAfter.induct)
  case (1 dd c)
  then show ?case by simp
next
  case (2 dd c i ch m es)
  then show ?case by auto
next
  case (3 dd c d remove es)
  have "dom (updateCCCache dd c d remove) \<subseteq> dom c \<union> (if remove then {} else {cc_thread_id d})"
    by (auto simp: updateCCCache_def split: if_splits)
  with 3 show ?case by (cases remove) (auto split: if_splits)
qed

lemma dom_cacheAfter_removals:
  "dom (cacheAfter dd c (map (\<lambda>d. UpdateCCCache d True) rs)) = dom c - cc_thread_id ` set rs"
  by (induction rs arbitrary: c) (auto simp: updateCCCache_def)

lemma dom_cacheOf: "dom (cacheOf old) = cc_thread_id ` set (threads old)"
  by (force simp: cacheOf_def dom_map_of_conv_image_fst)

lemma updateLoop_writes:
  "UpdateCCCache d b \<in> set (updateLoop alert cl old ds) \<Longrightarrow>
     \<not> b \<and> cc_thread_id d \<in> thread_id ` set ds"
  by (induction ds) (auto simp: statusOf_def split: if_splits)

lemma uncache_set:
  "set (uncacheRemovedThreads cur old)
     = (\<lambda>d. UpdateCCCache d True) ` {d \<in> set (threads old). cc_thread_id d \<notin> thread_id ` set cur}"
  by (auto simp: uncacheRemovedThreads_def Let_def)

lemma completed_cycle_evicts:
  assumes "checkCCUpdates k cl old cur = Inr es"
  shows "(\<forall>d. UpdateCCCache d True \<in> set es \<longleftrightarrow>
              d \<in> set (threads old) \<and> cc_thread_id d \<notin> thread_id ` set cur)
         \<and> set (uncacheRemovedThreads cur old)
             = (\<lambda>d. UpdateCCCache d True) ` {d \<in> set (threads old). cc_thread_id d \<notin> thread_id ` set cur}
         \<and> dom (cacheAfter dd (cacheOf old) es) \<subseteq> thread_id ` set cur"
proof -
  obtain ds where es: "es = updateLoop alertCCStatus cl old ds @ uncacheRemovedThreads cur old"
    and ids: "thread_id ` set ds \<subseteq> thread_id ` set cur"
  proof (cases "cur = []")
    case True
    with assms have "es = updateLoop alertCCStatus cl old [] @ uncacheRemovedThreads cur old"
      by (simp add: checkCCUpdates_def)
    then show ?thesis using that [of "[]"] by simp
  next
    case False
    with assms obtain ds where p: "parseCCStage k cur = Inr ds"
      and "es = updateLoop alertCCStatus cl old ds @ uncacheRemovedThreads cur old"
      by (auto simp: checkCCUpdates_def split: sum.splits)
    moreover from parseCCStage_ids [OF p] have "thread_id ` set ds \<subseteq> thread_id ` set cur" by simp
    ultimately show ?thesis using that by blast
  qed
  have removed: "UpdateCCCache d True \<in> set es \<longleftrightarrow>
              d \<in> set (threads old) \<and> cc_thread_id d \<notin> thread_id ` set cur" for d
  proof -
    have "UpdateCCCache d True \<notin> set (updateLoop alertCCStatus cl old ds)"
      using updateLoop_writes by blast
    then show ?thesis by (auto simp: es uncache_set)
  qed
  have sub: "dom (cacheAfter dd (cacheOf old) es) \<subseteq> thread_id ` set cur"
  proof
    fix x assume x: "x \<in> dom (cacheAfter dd (cacheOf old) es)"
    let ?mid = "cacheAfter dd (cacheOf old) (updateLoop alertCCStatus cl old ds)"
    let ?rs = "filter (\<lambda>othread. cc_thread_id othread \<notin> set (map thread_id cur)) (threads old)"
    have u: "uncacheRemovedThreads cur old = map (\<lambda>d. UpdateCCCache d True) ?rs"
      by (simp add: uncacheRemovedThreads_def Let_def)
    have "dom (cacheAfter dd (cacheOf old) es) = dom ?mid - cc_thread_id ` set ?rs"
      by (simp only: es cacheAfter_append u dom_cacheAfter_removals)
    with x have x1: "x \<in> dom ?mid" and x2: "x \<notin> cc_thread_id ` set ?rs" by simp_all
    from x1 dom_cacheAfter_writes [of dd "cacheOf old" "updateLoop alertCCStatus cl old ds"]
    have "x \<in> dom (cacheOf old) \<or>
          (\<exists>d. x = cc_thread_id d \<and> UpdateCCCache d False \<in> set (updateLoop alertCCStatus cl old ds))"
      by auto
    then show "x \<in> thread_id ` set cur"
    proof
      assume "x \<in> dom (cacheOf old)"
      then obtain d where d: "d \<in> set (threads old)" "x = cc_thread_id d"
        by (auto simp: dom_cacheOf)
      show ?thesis
      proof (rule ccontr)
        assume "x \<notin> thread_id ` set cur"
        with d have "d \<in> set ?rs" by simp
        with d(2) x2 show False by blast
      qed
    next
      assume "\<exists>d. x = cc_thread_id d \<and> UpdateCCCache d False \<in> set (updateLoop alertCCStatus cl old ds)"
      then obtain d where "x = cc_thread_id d"
        and "UpdateCCCache d False \<in> set (updateLoop alertCCStatus cl old ds)" by blast
      with updateLoop_writes [of d False alertCCStatus cl old ds] have "x \<in> thread_id ` set ds"
        by simp
      with ids show ?thesis by blast
    qed
  qed
  show ?thesis
  proof (intro conjI allI)
    fix d show "UpdateCCCache d True \<in> set es \<longleftrightarrow>
              d \<in> set (threads old) \<and> cc_thread_id d \<notin> thread_id ` set cur"
      by (rule removed)
  next
    show "set (uncacheRemovedThreads cur old)
             = (\<lambda>d. UpdateCCCache d True) ` {d \<in> set (threads old). cc_thread_id d \<notin> thread_id ` set cur}"
      by (rule uncache_set)
  next
    show "dom (cacheAfter dd (cacheOf old) es) \<subseteq> thread_id ` set cur" by (rule sub)
  qed
qed

text \<open>
  C2. \<^verbatim>\<open>uncacheRemovedThreads\<close> removes exactly the cached rows whose thread id is
  not among the thread ids of the forum query. A cycle over threads of monitored
  sections completes; the removals among its effects are exactly those rows, so no row
  of a thread still in the query is removed, classified or not; and the thread ids of
  the cache after the cycle are among those of the query.
\<close>

theorem eviction_exact:
  assumes "\<forall>t \<in> set cur. ccSubObj k (node_id t) \<noteq> None"
  shows "set (uncacheRemovedThreads cur old)
           = (\<lambda>d. UpdateCCCache d True) `
               {d \<in> set (threads old). cc_thread_id d \<notin> thread_id ` set cur}
         \<and> (\<exists>es. checkCCUpdates k cl old cur = Inr es
               \<and> (\<forall>d. UpdateCCCache d True \<in> set es \<longleftrightarrow>
                        d \<in> set (threads old) \<and> cc_thread_id d \<notin> thread_id ` set cur)
               \<and> dom (cacheAfter dd (cacheOf old) es) \<subseteq> thread_id ` set cur)"
proof -
  from checkCCUpdates_total [OF assms] obtain es where es: "checkCCUpdates k cl old cur = Inr es"
    by blast
  from completed_cycle_evicts [OF es] uncache_set es show ?thesis by blast
qed

text \<open>
  An instance: the thread 7 is cached and not in the query; the cycle removes its row
  and the cache afterwards holds the three threads of the query.
\<close>

theorem eviction_exact_witness:
  "checkCCUpdates theConstants clientC subscribedC [thread763, threadGP, threadWIP]
     = Inr effects763
   \<and> UpdateCCCache \<lparr>cc_thread_id = 7, cc_stage = ''QC'', cc_progress = ''1/2''\<rparr> True
       \<in> set effects763
   \<and> cacheAfter True (cacheOf subscribedC) effects763 7 = None
   \<and> cacheAfter True (cacheOf subscribedC) effects763 100 = Some (''QC'', ''0/2'')
   \<and> dom (cacheAfter True (cacheOf subscribedC) effects763)
       \<subseteq> thread_id ` set [thread763, threadGP, threadWIP]
   \<and> dom (cacheAfter False (cacheOf subscribedC) effects763)
       \<subseteq> thread_id ` set [thread763, threadGP, threadWIP]"
proof -
  have h0: "\<forall>t \<in> set [thread763, threadGP, threadWIP]. ccSubObj theConstants (node_id t) \<noteq> None"
    by code_simp
  have h1: "checkCCUpdates theConstants clientC subscribedC [thread763, threadGP, threadWIP]
     = Inr effects763"
    by code_simp
  have h2: "UpdateCCCache \<lparr>cc_thread_id = 7, cc_stage = ''QC'', cc_progress = ''1/2''\<rparr> True
       \<in> set effects763"
    by code_simp
  have h3: "cacheAfter True (cacheOf subscribedC) effects763 7 = None
    \<and> cacheAfter True (cacheOf subscribedC) effects763 100 = Some (''QC'', ''0/2'')"
    by code_simp
  from eviction_exact [OF h0, of subscribedC clientC True] h1
  have t: "dom (cacheAfter True (cacheOf subscribedC) effects763)
       \<subseteq> thread_id ` set [thread763, threadGP, threadWIP]"
    by auto
  from eviction_exact [OF h0, of subscribedC clientC False] h1
  have f: "dom (cacheAfter False (cacheOf subscribedC) effects763)
       \<subseteq> thread_id ` set [thread763, threadGP, threadWIP]"
    by auto
  from h1 h2 h3 t f show ?thesis by blast
qed

section \<open>Properties of the earlier cycle\<close>

text \<open>
  C4. A thread with no prefix text whose title \<open>Zapdos\<close> has no numeric pattern
  (under either pattern of the source) and not the word done. \<^verbatim>\<open>findNewThreads\<close>
  scans its fixed string instead of the title, finds the GP match there, and stores the
  thread with stage GP and progress \<open>0/1\<close>; \<^verbatim>\<open>parseCCStage\<close>, which scans the
  title, yields stage WIP with empty progress.
\<close>

theorem fixed_string_scan_evaluation:
  "matchAll progressRegexOld ''Zapdos'' = [] \<and> matchAll progressRegex ''Zapdos'' = []
   \<and> \<not> includesStr (toLowerCase ''Zapdos'') ''done''
   \<and> classifyOld theConstants
        \<lparr>thread_id = 1, node_id = 758, title = ''Zapdos'', phrase_text = None\<rparr>
       = Parsed (''GP'', Some ''0/1'', Some ''9'', Some ''ou'')
   \<and> (case findNewThreads theConstants (\<lambda>c. Some GuildText) [] Map.empty
               [\<lparr>thread_id = 1, node_id = 758, title = ''Zapdos'', phrase_text = None\<rparr>]
        of (sends, cc_status, e) \<Rightarrow> (sends, cc_status 1, e))
       = ([], Some (''GP'', Some ''0/1''), Finished)
   \<and> map_outcome classification
        (parseThread theConstants
           \<lparr>thread_id = 1, node_id = 758, title = ''Zapdos'', phrase_text = None\<rparr>)
       = Parsed (''WIP'', '''', [Some ''9''], [''ou''])"
  by code_simp

text \<open>
  C7. Two threads, the first cached with the stage and progress it is classified with,
  the second not cached. \<^verbatim>\<open>findNewThreads\<close> returns at the unchanged first thread:
  the second is neither alerted nor stored. \<^verbatim>\<open>checkCCUpdates\<close> on the same
  threads passes over the first and stores the second.
\<close>

theorem unchanged_thread_returns_evaluation:
  "(case findNewThreads theConstants (\<lambda>c. Some GuildText) [] [1 \<mapsto> (''WIP'', Some '''')]
          [\<lparr>thread_id = 1, node_id = 758, title = ''A'', phrase_text = Some ''WIP''\<rparr>,
           \<lparr>thread_id = 2, node_id = 758, title = ''B'', phrase_text = Some ''Quality Control''\<rparr>]
    of (sends, cc_status, e) \<Rightarrow> (sends, cc_status 1, cc_status 2, e))
   = ([], Some (''WIP'', Some ''''), None, Finished)
   \<and> checkCCUpdates theConstants (\<lambda>c. Some GuildText)
         \<lparr>threads = [\<lparr>cc_thread_id = 1, cc_stage = ''WIP'', cc_progress = ''''\<rparr>], alertchans = []\<rparr>
         [\<lparr>thread_id = 1, node_id = 758, title = ''A'', phrase_text = Some ''WIP''\<rparr>,
          \<lparr>thread_id = 2, node_id = 758, title = ''B'', phrase_text = Some ''Quality Control''\<rparr>]
     = Inr [UpdateCCCache \<lparr>cc_thread_id = 2, cc_stage = ''QC'', cc_progress = ''''\<rparr> False]"
  by code_simp

text \<open>
  C10. A thread of section 770, a key of the section table, with no prefix text and the
  title \<open>Zapdos\<close>. The generation pattern matches the empty string at the start of
  the title with no group set; \<^verbatim>\<open>findNewThreads\<close> tests the match against
  \<^verbatim>\<open>null\<close> only and calls \<^verbatim>\<open>toLowerCase\<close> on \<^verbatim>\<open>undefined\<close>, which throws.
  \<^verbatim>\<open>parseCCStage\<close> tests for the empty match as well and skips the thread.
\<close>

theorem empty_gen_match_throws_evaluation:
  "ccSubObj theConstants 770 \<noteq> None
   \<and> match genRegex ''Zapdos'' = Some [Some '''', None, None, None, None]
   \<and> classifyOld theConstants
        \<lparr>thread_id = 1, node_id = 770, title = ''Zapdos'', phrase_text = None\<rparr>
       = Failed TypeError
   \<and> (case findNewThreads theConstants (\<lambda>c. Some GuildText) [] Map.empty
               [\<lparr>thread_id = 1, node_id = 770, title = ''Zapdos'', phrase_text = None\<rparr>]
        of (sends, cc_status, e) \<Rightarrow> (sends, cc_status 1, e))
       = ([], None, Thrown TypeError)
   \<and> parseThread theConstants
        \<lparr>thread_id = 1, node_id = 770, title = ''Zapdos'', phrase_text = None\<rparr> = Skipped"
  by code_simp

end
